theory Spec2Isabelle
  imports Complex_Main
begin

section \<open>The push-channel client (static/js/dashboard/sseClient.js)\<close>

text \<open>
  The module keeps its state in module-level variables; the model collects them in one
  record and every function of the module takes the record and returns it updated.
  Times are milliseconds. Console output is not part of the model.

  The browser's timer table is part of the state: \<open>setTimeout\<close> enters a timer under a
  fresh handle, \<open>clearTimeout\<close> removes the timer of a handle (and does nothing for
  \<open>null\<close> or for a handle that is no longer pending), and a pending timer may fire, which
  removes it and runs its callback. The variables \<open>retryTimeout\<close>, \<open>heartbeatTimeout\<close>
  and \<open>debounceTimer\<close> hold handles, as in the source. Three traces record what the
  module does to the outside: the arguments of the \<open>onConnectionChange\<close> calls
  (\<open>status_calls\<close>), the handler invocations (\<open>handler_calls\<close>: the type and the
  buffered body for which the handler of that type was called) and every \<open>setTimeout\<close>
  call with its delay (\<open>setTimeout_calls\<close>).
\<close>

datatype ConnectionStatus = CONNECTED | CONNECTING | DISCONNECTED

definition INITIAL_RETRY_DELAY :: nat where "INITIAL_RETRY_DELAY = 1000"
definition MAX_RETRY_DELAY :: nat where "MAX_RETRY_DELAY = 30000"
definition HEARTBEAT_TIMEOUT :: nat where "HEARTBEAT_TIMEOUT = 45000"
definition EVENT_DEBOUNCE_MS :: nat where "EVENT_DEBOUNCE_MS = 100"

text \<open>The five event names for which \<open>connect\<close> registers a listener.\<close>

datatype event_type =
  device_status | alert_created | latency_spike | interface_threshold | classification_update

text \<open>
  The parsed body of a frame: an object with an optional \<open>event_id\<close> (a string) and an
  optional \<open>payload\<close> (an object, opaque here: \<open>event_payload\<close>). A frame whose body makes the \<open>try\<close> block of
  \<open>handleEvent\<close> throw (\<open>JSON.parse\<close> fails) is \<open>Unparseable\<close>.
\<close>

record event_data =
  event_id :: "string option"
  event_payload :: "string option"

datatype frame = Unparseable | Parsed event_data

datatype handler_arg = Payload string | Whole event_data

datatype timer_kind = Retry | Heartbeat | Debounce

datatype transport = Open_transport | Closed_transport

record sse_options =
  onDeviceStatus :: bool
  onAlertCreated :: bool
  onLatencySpike :: bool
  onInterfaceThreshold :: bool
  onClassificationUpdate :: bool
  opt_onConnectionChange :: bool

record sse_client =
  eventSource :: "transport option"
  connectionStatus :: ConnectionStatus
  retryDelay :: nat
  retryTimeout :: "nat option"
  heartbeatTimeout :: "nat option"
  lastEventIds :: "string list"
  eventBuffer :: "(event_type \<times> event_data) list"
  debounceTimer :: "nat option"
  onConnectionChange :: bool
  eventHandlers :: "event_type list"
  timers :: "(nat \<times> timer_kind \<times> nat) list"
  next_handle :: nat
  status_calls :: "ConnectionStatus list"
  handler_calls :: "(event_type \<times> event_data) list"
  setTimeout_calls :: "(timer_kind \<times> nat) list"

text \<open>The module as loaded: the initial values of its \<open>let\<close> declarations.\<close>

definition sse_initial :: sse_client where
  "sse_initial =
     \<lparr>eventSource = None, connectionStatus = DISCONNECTED,
      retryDelay = INITIAL_RETRY_DELAY, retryTimeout = None, heartbeatTimeout = None,
      lastEventIds = [], eventBuffer = [], debounceTimer = None,
      onConnectionChange = False, eventHandlers = [],
      timers = [], next_handle = 1,
      status_calls = [], handler_calls = [], setTimeout_calls = []\<rparr>"

subsection \<open>Timers\<close>

definition clearTimeout :: "nat option \<Rightarrow> sse_client \<Rightarrow> sse_client" where
  "clearTimeout h s =
     (case h of
        None \<Rightarrow> s
      | Some n \<Rightarrow> s\<lparr>timers := filter (\<lambda>t. fst t \<noteq> n) (timers s)\<rparr>)"

text \<open>\<open>setTimeout\<close>: the new timer's handle is \<open>next_handle\<close> of the state before.\<close>

definition setTimeout :: "timer_kind \<Rightarrow> nat \<Rightarrow> sse_client \<Rightarrow> sse_client" where
  "setTimeout k d s =
     s\<lparr>timers := timers s @ [(next_handle s, k, d)],
       next_handle := Suc (next_handle s),
       setTimeout_calls := setTimeout_calls s @ [(k, d)]\<rparr>"

subsection \<open>Connection status\<close>

definition setConnectionStatus :: "ConnectionStatus \<Rightarrow> sse_client \<Rightarrow> sse_client" where
  "setConnectionStatus status s =
     (if connectionStatus s = status then s
      else
        (let s1 = s\<lparr>connectionStatus := status\<rparr>
         in if onConnectionChange s1
            then s1\<lparr>status_calls := status_calls s1 @ [status]\<rparr>
            else s1))"

definition getConnectionStatus :: "sse_client \<Rightarrow> ConnectionStatus" where
  "getConnectionStatus s = connectionStatus s"

subsection \<open>Heartbeat, disconnection and reconnection\<close>

definition resetHeartbeatTimeout :: "sse_client \<Rightarrow> sse_client" where
  "resetHeartbeatTimeout s =
     (let s1 = clearTimeout (heartbeatTimeout s) s;
          h = next_handle s1
      in (setTimeout Heartbeat HEARTBEAT_TIMEOUT s1)\<lparr>heartbeatTimeout := Some h\<rparr>)"

definition handleDisconnect :: "sse_client \<Rightarrow> sse_client" where
  "handleDisconnect s =
     (let s1 = (case eventSource s of
                  Some _ \<Rightarrow> s\<lparr>eventSource := None\<rparr>
                | None \<Rightarrow> s);
          s2 = setConnectionStatus DISCONNECTED s1;
          s3 = clearTimeout (heartbeatTimeout s2) s2;
          h = next_handle s3;
          s4 = (setTimeout Retry (retryDelay s3) s3)\<lparr>retryTimeout := Some h\<rparr>
      in s4\<lparr>retryDelay := min (retryDelay s4 * 2) MAX_RETRY_DELAY\<rparr>)"

text \<open>
  \<open>connect\<close>: \<open>ctor_ok\<close> says whether \<open>new EventSource\<close> returns; when it throws, the
  \<open>catch\<close> block runs \<open>handleDisconnect\<close> and the variable still holds the transport
  closed at the top of the function.
\<close>

definition connect :: "bool \<Rightarrow> sse_client \<Rightarrow> sse_client" where
  "connect ctor_ok s =
     (let s1 = (case eventSource s of
                  Some _ \<Rightarrow> s\<lparr>eventSource := Some Closed_transport\<rparr>
                | None \<Rightarrow> s);
          s2 = setConnectionStatus CONNECTING s1
      in if ctor_ok then s2\<lparr>eventSource := Some Open_transport\<rparr>
         else handleDisconnect s2)"

text \<open>The callbacks that \<open>connect\<close> installs on the transport.\<close>

definition onopen :: "sse_client \<Rightarrow> sse_client" where
  "onopen s =
     resetHeartbeatTimeout ((setConnectionStatus CONNECTED s)\<lparr>retryDelay := INITIAL_RETRY_DELAY\<rparr>)"

definition on_connected :: "sse_client \<Rightarrow> sse_client" where
  "on_connected s = resetHeartbeatTimeout s"

definition onerror :: "sse_client \<Rightarrow> sse_client" where
  "onerror s = handleDisconnect s"

definition initSSE :: "sse_options \<Rightarrow> bool \<Rightarrow> sse_client \<Rightarrow> sse_client" where
  "initSSE options ctor_ok s =
     connect ctor_ok
       (s\<lparr>eventHandlers :=
            (if onDeviceStatus options then [device_status] else []) @
            (if onAlertCreated options then [alert_created] else []) @
            (if onLatencySpike options then [latency_spike] else []) @
            (if onInterfaceThreshold options then [interface_threshold] else []) @
            (if onClassificationUpdate options then [classification_update] else []),
          onConnectionChange := opt_onConnectionChange options\<rparr>)"

definition disconnect :: "sse_client \<Rightarrow> sse_client" where
  "disconnect s =
     (let s1 = clearTimeout (retryTimeout s) s;
          s2 = clearTimeout (heartbeatTimeout s1) s1;
          s3 = clearTimeout (debounceTimer s2) s2;
          s4 = (case eventSource s3 of
                  Some _ \<Rightarrow> s3\<lparr>eventSource := None\<rparr>
                | None \<Rightarrow> s3)
      in setConnectionStatus DISCONNECTED s4)"

definition reconnect :: "bool \<Rightarrow> sse_client \<Rightarrow> sse_client" where
  "reconnect ctor_ok s = connect ctor_ok ((disconnect s)\<lparr>retryDelay := INITIAL_RETRY_DELAY\<rparr>)"

subsection \<open>Events: deduplication, buffering, dispatch\<close>

text \<open>
  \<open>data.event_id\<close> is tested for truthiness: an absent id and the empty string both count
  as no id. \<open>lastEventIds\<close> is a \<open>Set\<close>, which iterates in insertion order: a list
  without repetition, oldest first. \<open>add\<close> of a member changes nothing.
\<close>

definition truthy_id :: "string option \<Rightarrow> bool" where
  "truthy_id i = (case i of None \<Rightarrow> False | Some x \<Rightarrow> x \<noteq> [])"

definition set_add :: "string \<Rightarrow> string list \<Rightarrow> string list" where
  "set_add x ids = (if x \<in> set ids then ids else ids @ [x])"

definition track_id :: "string \<Rightarrow> string list \<Rightarrow> string list" where
  "track_id x ids =
     (let ids1 = set_add x ids
      in if length ids1 > 100
         then (case ids1 of [] \<Rightarrow> ids1 | firstId # _ \<Rightarrow> filter (\<lambda>y. y \<noteq> firstId) ids1)
         else ids1)"

definition scheduleEventFlush :: "sse_client \<Rightarrow> sse_client" where
  "scheduleEventFlush s =
     (let s1 = (case debounceTimer s of Some h \<Rightarrow> clearTimeout (Some h) s | None \<Rightarrow> s);
          h = next_handle s1
      in (setTimeout Debounce EVENT_DEBOUNCE_MS s1)\<lparr>debounceTimer := Some h\<rparr>)"

definition handleEvent :: "event_type \<Rightarrow> frame \<Rightarrow> sse_client \<Rightarrow> sse_client" where
  "handleEvent eventType event s =
     (let s1 = resetHeartbeatTimeout s
      in case event of
           Unparseable \<Rightarrow> s1
         | Parsed data \<Rightarrow>
             if truthy_id (event_id data) \<and> the (event_id data) \<in> set (lastEventIds s1)
             then s1
             else
               (let s2 = (if truthy_id (event_id data)
                          then s1\<lparr>lastEventIds := track_id (the (event_id data)) (lastEventIds s1)\<rparr>
                          else s1)
                in scheduleEventFlush (s2\<lparr>eventBuffer := eventBuffer s2 @ [(eventType, data)]\<rparr>)))"

text \<open>
  \<open>flushEventBuffer\<close> groups the buffer by type in an object, whose entries come back in
  the order in which the types were first seen, and calls the handler of each type, when
  one is registered, once per event, with \<open>event.payload || event\<close> as the argument
  (\<open>handler_argument\<close>). An exception of a handler is caught.
\<close>

fun group_push :: "event_type \<Rightarrow> event_data \<Rightarrow> (event_type \<times> event_data list) list
    \<Rightarrow> (event_type \<times> event_data list) list" where
  "group_push t d [] = [(t, [d])]"
| "group_push t d ((t', ds) # rest) =
     (if t' = t then (t', ds @ [d]) # rest else (t', ds) # group_push t d rest)"

definition eventsByType :: "(event_type \<times> event_data) list \<Rightarrow> (event_type \<times> event_data list) list" where
  "eventsByType buf = foldl (\<lambda>acc e. group_push (fst e) (snd e) acc) [] buf"

definition handler_argument :: "event_data \<Rightarrow> handler_arg" where
  "handler_argument d = (case event_payload d of Some p \<Rightarrow> Payload p | None \<Rightarrow> Whole d)"

definition dispatch :: "event_type list \<Rightarrow> (event_type \<times> event_data list) list
    \<Rightarrow> (event_type \<times> event_data) list" where
  "dispatch handlers groups =
     concat (map (\<lambda>g. if fst g \<in> set handlers
                       then map (\<lambda>d. (fst g, d)) (snd g)
                       else []) groups)"

definition flushEventBuffer :: "sse_client \<Rightarrow> sse_client" where
  "flushEventBuffer s =
     (if eventBuffer s = [] then s
      else s\<lparr>handler_calls :=
               handler_calls s @ dispatch (eventHandlers s) (eventsByType (eventBuffer s)),
             eventBuffer := []\<rparr>)"

subsection \<open>A pending timer fires\<close>

text \<open>
  The timer with handle \<open>h\<close> fires: it leaves the table and its callback runs (\<open>connect\<close>
  for a retry timer, \<open>handleDisconnect\<close> for the heartbeat watchdog, \<open>flushEventBuffer\<close>
  for the debounce timer). A handle that is not pending cannot fire.
\<close>

definition fire :: "nat \<Rightarrow> bool \<Rightarrow> sse_client \<Rightarrow> sse_client" where
  "fire h ctor_ok s =
     (case find (\<lambda>t. fst t = h) (timers s) of
        None \<Rightarrow> s
      | Some t \<Rightarrow>
          (let s1 = s\<lparr>timers := filter (\<lambda>t. fst t \<noteq> h) (timers s)\<rparr>
           in case fst (snd t) of
                Retry \<Rightarrow> connect ctor_ok s1
              | Heartbeat \<Rightarrow> handleDisconnect s1
              | Debounce \<Rightarrow> flushEventBuffer s1))"

subsection \<open>Runs of the client\<close>

text \<open>
  What can happen to the client after \<open>initSSE\<close>: the transport delivers \<open>open\<close>,
  \<open>error\<close>, the server's \<open>connected\<close> event or one of the five named events (only a
  transport that has not been closed delivers anything), a pending timer fires, or the
  page calls \<open>disconnect\<close> or \<open>reconnect\<close>.
\<close>

datatype sse_op =
    Ev_open | Ev_error | Ev_connected | Ev_event event_type frame
  | Ev_timer nat bool | Call_disconnect | Call_reconnect bool

definition sse_step :: "sse_op \<Rightarrow> sse_client \<Rightarrow> sse_client" where
  "sse_step op s =
     (case op of
        Ev_open \<Rightarrow> if eventSource s = Some Open_transport then onopen s else s
      | Ev_error \<Rightarrow> if eventSource s = Some Open_transport then onerror s else s
      | Ev_connected \<Rightarrow> if eventSource s = Some Open_transport then on_connected s else s
      | Ev_event t f \<Rightarrow> if eventSource s = Some Open_transport then handleEvent t f s else s
      | Ev_timer h ok \<Rightarrow> fire h ok s
      | Call_disconnect \<Rightarrow> disconnect s
      | Call_reconnect ok \<Rightarrow> reconnect ok s)"

definition sse_run :: "sse_op list \<Rightarrow> sse_client \<Rightarrow> sse_client" where
  "sse_run ops s = foldl (\<lambda>s op. sse_step op s) s ops"

text \<open>
  A connection attempt fails: either \<open>new EventSource\<close> throws inside \<open>connect\<close>
  (\<open>ctor_ok = False\<close>, and \<open>connect\<close> has already run \<open>handleDisconnect\<close>), or the
  transport is created and then reports an error. \<open>failing_attempts\<close> lets the pending
  retry timer fire and the attempt it starts fail, once per element of the list.
\<close>

definition attempt_fails :: "bool \<Rightarrow> sse_client \<Rightarrow> sse_client" where
  "attempt_fails ctor_ok s = (if ctor_ok then onerror s else s)"

definition fire_retry :: "bool \<Rightarrow> sse_client \<Rightarrow> sse_client" where
  "fire_retry ctor_ok s = (case retryTimeout s of None \<Rightarrow> s | Some h \<Rightarrow> fire h ctor_ok s)"

fun failing_attempts :: "bool list \<Rightarrow> sse_client \<Rightarrow> sse_client" where
  "failing_attempts [] s = s"
| "failing_attempts (ctor_ok # rest) s =
     failing_attempts rest (attempt_fails ctor_ok (fire_retry ctor_ok s))"

definition cold_connect_fails :: "sse_options \<Rightarrow> bool \<Rightarrow> sse_client" where
  "cold_connect_fails options ctor_ok = attempt_fails ctor_ok (initSSE options ctor_ok sse_initial)"

definition retry_delays :: "sse_client \<Rightarrow> nat list" where
  "retry_delays s = map snd (filter (\<lambda>c. fst c = Retry) (setTimeout_calls s))"

text \<open>How often a handler has been called for an event carrying the id \<open>i\<close>.\<close>

definition fired_for :: "string \<Rightarrow> sse_client \<Rightarrow> nat" where
  "fired_for i s = length (filter (\<lambda>c. event_id (snd c) = Some i) (handler_calls s))"

text \<open>The options that the dashboard passes to \<open>initSSE\<close>: all six callbacks.\<close>

definition dashboard_options :: sse_options where
  "dashboard_options =
     \<lparr>onDeviceStatus = True, onAlertCreated = True, onLatencySpike = True,
      onInterfaceThreshold = True, onClassificationUpdate = True,
      opt_onConnectionChange = True\<rparr>"

text \<open>
  The invariant behind the notifications: the callback is registered, no two successive
  notifications carry the same status, and the last notification carries the current one.
\<close>

definition notify_inv :: "sse_client \<Rightarrow> bool" where
  "notify_inv s = (onConnectionChange s \<and> distinct_adj (status_calls s) \<and>
     (status_calls s = [] \<or> last (status_calls s) = connectionStatus s))"


text \<open>
  The invariant of the dedup window: no id twice, at most 100 ids, never the empty id.
\<close>

definition window_inv :: "sse_client \<Rightarrow> bool" where
  "window_inv s = (distinct (lastEventIds s) \<and> length (lastEventIds s) \<le> 100 \<and>
     [] \<notin> set (lastEventIds s))"

text \<open>
  The timer table: every pending timer has its own handle, below the next fresh one; and
  the state after a failed attempt: the retry timer of \<open>retryTimeout\<close> is pending and the
  delay is within the cap.
\<close>

definition timers_inv :: "sse_client \<Rightarrow> bool" where
  "timers_inv s = (distinct (map fst (timers s)) \<and> (\<forall>t\<in>set (timers s). fst t < next_handle s))"

definition retry_pending :: "sse_client \<Rightarrow> bool" where
  "retry_pending s = (timers_inv s \<and> retryDelay s \<le> MAX_RETRY_DELAY \<and>
     (\<exists>h d. retryTimeout s = Some h \<and> (h, Retry, d) \<in> set (timers s)))"

text \<open>
  Sample inputs: the ids \<open>e\<close>, \<open>ex\<close>, \<open>exx\<close>, ..., one per number; the run in which the
  transport delivers one event of a type for each id of a list; and the client after
  \<open>open\<close> and one \<open>device_status\<close> event with the id \<open>evt-1\<close>.
\<close>

definition sample_id :: "nat \<Rightarrow> string" where
  "sample_id n = CHR ''e'' # replicate n (CHR ''x'')"

definition id_events :: "event_type \<Rightarrow> string list \<Rightarrow> sse_op list" where
  "id_events t ids = map (\<lambda>i. Ev_event t (Parsed \<lparr>event_id = Some i, event_payload = None\<rparr>)) ids"

definition one_event_received :: sse_client where
  "one_event_received =
     sse_run [Ev_open, Ev_event device_status (Parsed \<lparr>event_id = Some ''evt-1'', event_payload = None\<rparr>)]
       (initSSE dashboard_options True sse_initial)"

text \<open>
  The ids that the events of a run carry, how many entries of a list of events carry a
  given id, and the invariant of the deduplication for runs whose ids all lie in \<open>A\<close>:
  an id occurs at most once in the buffer and the handler calls together, and only when
  it is in the window.
\<close>

fun op_id :: "sse_op \<Rightarrow> string list" where
  "op_id (Ev_event t (Parsed d)) = (case event_id d of Some i \<Rightarrow> [i] | None \<Rightarrow> [])"
| "op_id _ = []"

definition op_ids :: "sse_op list \<Rightarrow> string list" where
  "op_ids ops = concat (map op_id ops)"

definition cnt :: "string \<Rightarrow> (event_type \<times> event_data) list \<Rightarrow> nat" where
  "cnt i xs = length (filter (\<lambda>c. event_id (snd c) = Some i) xs)"

definition dedup_inv :: "string set \<Rightarrow> sse_client \<Rightarrow> bool" where
  "dedup_inv A s =
     (distinct (lastEventIds s) \<and> set (lastEventIds s) \<subseteq> A \<and>
      (\<forall>i. i \<noteq> [] \<longrightarrow>
         cnt i (eventBuffer s) + cnt i (handler_calls s) \<le> (if i \<in> set (lastEventIds s) then 1 else 0)))"

definition flatten_groups :: "(event_type \<times> event_data list) list \<Rightarrow> (event_type \<times> event_data) list" where
  "flatten_groups groups = concat (map (\<lambda>g. map (\<lambda>d. (fst g, d)) (snd g)) groups)"

section \<open>The state store (state.js, the second file of static/js/dashboard/discovery.js)\<close>

text \<open>
  \<^bold>\<open>Values.\<close> A slice holds any JavaScript value that the program can put there: the
  JSON values that the fetches and \<open>JSON.parse\<close> deliver, and the \<open>Date\<close> objects and
  ISO-8601 time strings that the store makes itself. \<open>JDate t\<close> is the \<open>Date\<close> of the
  instant \<open>t\<close> (milliseconds), \<open>JInvalidDate\<close> the invalid \<open>Date\<close>, and \<open>JIsoString t\<close> the
  string that \<open>toISOString\<close> returns for \<open>t\<close>. Numbers are rationals: the arithmetic of the
  reducers is exact here, where JavaScript rounds to doubles. \<open>undefined\<close> and \<open>null\<close> are
  one value in a slice (\<open>JNull\<close>); the result of reading a property is a \<open>jsval option\<close>,
  \<open>None\<close> for \<open>undefined\<close>. An object is the list of its own properties in insertion
  order, keys without repetition. Objects are values: two references to one object are
  not distinguished from two equal objects.

  \<^bold>\<open>Outcomes.\<close> A function of the store returns (\<open>Returns\<close>), or throws with the store as
  it is at that moment (\<open>Throws\<close>), or leaves the model (\<open>Outside_model\<close>): JavaScript
  has a result there, by a conversion that the model does not define (a string or an
  object where a number is computed with, a property written on an array, the prototype
  of the state object replaced), and the model says nothing about it. \<open>res\<close> is the same
  for a computation on values.

  \<^bold>\<open>Environment.\<close> \<open>localStorage\<close> is the text under \<open>STORAGE_KEY\<close>, if any: the text of a
  JSON value (given by the value that \<open>JSON.parse\<close> returns for it), the empty text, or a
  text that \<open>JSON.parse\<close> rejects. \<open>setItem_throws\<close> says whether the storage refuses
  the next write (quota); \<open>clock\<close> is the time that \<open>Date.now()\<close> and \<open>new Date()\<close> read.
  \<open>console\<close> records the lines written, \<open>listener_calls\<close> the listeners called, in
  order. A listener is a number; listeners return (the dashboard's only listener,
  \<open>scheduleRender\<close>, sets two variables and requests an animation frame).
\<close>

datatype jsval =
    JNull | JBool bool | JNum rat | JStr string | JIsoString int
  | JDate int | JInvalidDate | JArr "jsval list" | JObj "(string \<times> jsval) list"

datatype exn = TypeError | QuotaExceededError

datatype level = Console_log | Console_warn | Console_error

datatype stored = Empty_text | Garbled_text | Json_text jsval

record store =
  dashboardState :: "(string \<times> jsval) list"
  listeners :: "nat list"
  localStorage :: "stored option"
  setItem_throws :: bool
  clock :: int
  console :: "(level \<times> string) list"
  listener_calls :: "nat list"

datatype 'a outcome = Returns 'a | Throws exn store | Outside_model

datatype 'a res = Ok 'a | Raise exn | Unmodelled

datatype number = NaN | Finite rat

definition initial_dashboardState :: "(string \<times> jsval) list" where
  "initial_dashboardState =
     [(''summary'', JNull), (''trends'', JNull), (''topProblems'', JNull),
      (''inventory'', JNull), (''alerts'', JNull), (''lastUpdated'', JNull),
      (''isLoading'', JBool False), (''error'', JNull),
      (''connectionStatus'', JStr ''disconnected''), (''lastEventId'', JNull),
      (''realtimeEvents'', JArr []), (''realtimeInterfaces'', JNull),
      (''networkIOTrend'', JNull)]"

definition STORAGE_KEY :: string where "STORAGE_KEY = ''tactical_dashboard_state''"

definition store_initial :: "stored option \<Rightarrow> bool \<Rightarrow> int \<Rightarrow> store" where
  "store_initial persisted full now =
     \<lparr>dashboardState = initial_dashboardState, listeners = [],
      localStorage = persisted, setItem_throws = full, clock = now,
      console = [], listener_calls = []\<rparr>"

subsection \<open>Values\<close>

text \<open>
  \<open>truthy\<close> is JavaScript's \<open>ToBoolean\<close>. \<open>get_prop\<close> reads one of the properties that the
  store reads (\<open>timestamp\<close>, \<open>data\<close>, \<open>devices\<close>, \<open>severity\<close>, ...) from a value that is not
  \<open>null\<close>: only a plain object can have one. \<open>to_number\<close> is \<open>ToNumber\<close> where the model
  defines it, \<open>Math_round\<close> rounds to the nearest integer, halves upwards, \<open>new_Date\<close> is
  \<open>new Date(v)\<close>, and \<open>json_roundtrip v\<close> is \<open>JSON.parse(JSON.stringify(v))\<close>.
\<close>

fun truthy :: "jsval \<Rightarrow> bool" where
  "truthy JNull = False"
| "truthy (JBool b) = b"
| "truthy (JNum n) = (n \<noteq> 0)"
| "truthy (JStr s) = (s \<noteq> [])"
| "truthy _ = True"

definition truthy_opt :: "jsval option \<Rightarrow> bool" where
  "truthy_opt v = (case v of None \<Rightarrow> False | Some x \<Rightarrow> truthy x)"

definition nullish :: "jsval option \<Rightarrow> bool" where
  "nullish v = (v = None \<or> v = Some JNull)"

definition or_null :: "jsval option \<Rightarrow> jsval" where
  "or_null v = (case v of None \<Rightarrow> JNull | Some x \<Rightarrow> x)"

fun obj_set :: "string \<Rightarrow> jsval \<Rightarrow> (string \<times> jsval) list \<Rightarrow> (string \<times> jsval) list" where
  "obj_set k v [] = [(k, v)]"
| "obj_set k v ((k', v') # rest) =
     (if k' = k then (k, v) # rest else (k', v') # obj_set k v rest)"

fun get_prop :: "jsval \<Rightarrow> string \<Rightarrow> jsval option" where
  "get_prop (JObj kvs) k = map_of kvs k"
| "get_prop _ k = None"

fun is_primitive :: "jsval \<Rightarrow> bool" where
  "is_primitive (JBool b) = True"
| "is_primitive (JNum n) = True"
| "is_primitive (JStr s) = True"
| "is_primitive (JIsoString d) = True"
| "is_primitive _ = False"

fun to_number :: "jsval option \<Rightarrow> number option" where
  "to_number None = Some NaN"
| "to_number (Some JNull) = Some (Finite 0)"
| "to_number (Some (JBool b)) = Some (Finite (if b then 1 else 0))"
| "to_number (Some (JNum n)) = Some (Finite n)"
| "to_number (Some (JStr s)) = (if s = [] then Some (Finite 0) else None)"
| "to_number (Some (JIsoString d)) = Some NaN"
| "to_number (Some (JDate d)) = Some (Finite (of_int d))"
| "to_number (Some JInvalidDate) = Some NaN"
| "to_number (Some (JArr xs)) = None"
| "to_number (Some (JObj kvs)) = None"

definition Math_round :: "rat \<Rightarrow> rat" where
  "Math_round x = of_int \<lfloor>x + 1 / 2\<rfloor>"

definition trunc_to_zero :: "rat \<Rightarrow> int" where
  "trunc_to_zero x = (if 0 \<le> x then \<lfloor>x\<rfloor> else \<lceil>x\<rceil>)"

definition time_clip :: "number \<Rightarrow> jsval" where
  "time_clip n =
     (case n of
        NaN \<Rightarrow> JInvalidDate
      | Finite x \<Rightarrow> if \<bar>x\<bar> \<le> 8640000000000000 then JDate (trunc_to_zero x) else JInvalidDate)"

fun new_Date :: "jsval option \<Rightarrow> jsval option" where
  "new_Date (Some (JIsoString d)) = Some (JDate d)"
| "new_Date (Some (JStr s)) = (if s = [] then Some JInvalidDate else None)"
| "new_Date (Some (JDate d)) = Some (JDate d)"
| "new_Date v = map_option time_clip (to_number v)"

fun json_roundtrip :: "jsval \<Rightarrow> jsval" where
  "json_roundtrip (JDate d) = JIsoString d"
| "json_roundtrip JInvalidDate = JNull"
| "json_roundtrip (JArr xs) = JArr (map json_roundtrip xs)"
| "json_roundtrip (JObj kvs) = JObj (map (\<lambda>kv. (fst kv, json_roundtrip (snd kv))) kvs)"
| "json_roundtrip v = v"

subsection \<open>The store's functions\<close>

definition slice :: "store \<Rightarrow> string \<Rightarrow> jsval" where
  "slice w k = or_null (map_of (dashboardState w) k)"

definition set_slice :: "string \<Rightarrow> jsval \<Rightarrow> store \<Rightarrow> store" where
  "set_slice k v w = w\<lparr>dashboardState := obj_set k v (dashboardState w)\<rparr>"

definition console_add :: "level \<Rightarrow> string \<Rightarrow> store \<Rightarrow> store" where
  "console_add l msg w = w\<lparr>console := console w @ [(l, msg)]\<rparr>"

definition getState :: "store \<Rightarrow> (string \<times> jsval) list" where
  "getState w = dashboardState w"

text \<open>
  \<open>key in dashboardState\<close> holds for the object's own properties and for those it
  inherits from \<open>Object.prototype\<close>, the prototype of an object literal. An assignment to
  an inherited name other than \<open>__proto__\<close> creates an own property; \<open>__proto__\<close> is an
  accessor, whose setter ignores a primitive value and replaces the prototype otherwise.
\<close>

definition Object_prototype_names :: "string list" where
  "Object_prototype_names =
     [''constructor'', ''__defineGetter__'', ''__defineSetter__'', ''hasOwnProperty'',
      ''__lookupGetter__'', ''__lookupSetter__'', ''isPrototypeOf'',
      ''propertyIsEnumerable'', ''toString'', ''valueOf'', ''__proto__'',
      ''toLocaleString'']"

definition key_in_dashboardState :: "string \<Rightarrow> store \<Rightarrow> bool" where
  "key_in_dashboardState key w =
     (key \<in> set (map fst (dashboardState w)) \<or> key \<in> set Object_prototype_names)"

definition notifyListeners :: "store \<Rightarrow> store" where
  "notifyListeners w = w\<lparr>listener_calls := listener_calls w @ listeners w\<rparr>"

definition subscribe :: "nat \<Rightarrow> store \<Rightarrow> store" where
  "subscribe listener w = w\<lparr>listeners := listeners w @ [listener]\<rparr>"

definition unsubscribe :: "nat \<Rightarrow> store \<Rightarrow> store" where
  "unsubscribe listener w = w\<lparr>listeners := remove1 listener (listeners w)\<rparr>"

definition cacheData :: "store \<Rightarrow> jsval" where
  "cacheData w =
     JObj [(''timestamp'', JNum (of_int (clock w))),
           (''data'', JObj [(''summary'', slice w ''summary''),
                            (''trends'', slice w ''trends''),
                            (''topProblems'', slice w ''topProblems''),
                            (''inventory'', slice w ''inventory''),
                            (''realtimeInterfaces'', slice w ''realtimeInterfaces''),
                            (''networkIOTrend'', slice w ''networkIOTrend'')])]"

definition localStorage_setItem :: "stored \<Rightarrow> store \<Rightarrow> store outcome" where
  "localStorage_setItem text w =
     (if setItem_throws w then Throws QuotaExceededError w
      else Returns (w\<lparr>localStorage := Some text\<rparr>))"

definition saveToCache :: "store \<Rightarrow> store outcome" where
  "saveToCache w =
     (case localStorage_setItem (Json_text (json_roundtrip (cacheData w))) w of
        Returns w' \<Rightarrow> Returns w'
      | Throws e w' \<Rightarrow> Returns (console_add Console_warn ''Cache save failed'' w')
      | Outside_model \<Rightarrow> Outside_model)"

definition inherited_accessor :: "string \<Rightarrow> store \<Rightarrow> bool" where
  "inherited_accessor key w =
     (key = ''__proto__'' \<and> key \<notin> set (map fst (dashboardState w)))"

definition updateState :: "string \<Rightarrow> jsval \<Rightarrow> store \<Rightarrow> store outcome" where
  "updateState key data w =
     (if key_in_dashboardState key w then
        (if inherited_accessor key w \<and> \<not> is_primitive data then Outside_model
         else
           (let w1 = (if inherited_accessor key w then w else set_slice key data w);
                w2 = set_slice ''lastUpdated'' (JDate (clock w1)) w1
            in saveToCache (notifyListeners w2)))
      else
        Returns (console_add Console_warn (''Attempted to update invalid state key: '' @ key) w))"


definition CACHE_MAX_AGE_MS :: rat where
  "CACHE_MAX_AGE_MS = 1000 * 60 * 60 * 24 * 7"

definition older_than_a_week :: "int \<Rightarrow> number \<Rightarrow> bool" where
  "older_than_a_week now ts =
     (case ts of NaN \<Rightarrow> False | Finite t \<Rightarrow> of_int now - t > CACHE_MAX_AGE_MS)"

definition hydrate :: "jsval \<Rightarrow> string \<Rightarrow> store \<Rightarrow> store" where
  "hydrate data k w =
     (case get_prop data k of
        None \<Rightarrow> w
      | Some v \<Rightarrow> if truthy v then set_slice k v w else w)"

definition loadFromCache :: "store \<Rightarrow> (bool \<times> store) outcome" where
  "loadFromCache w =
     (case localStorage w of
        None \<Rightarrow> Returns (False, w)
      | Some Empty_text \<Rightarrow> Returns (False, w)
      | Some Garbled_text \<Rightarrow> Returns (False, console_add Console_error ''Cache load failed'' w)
      | Some (Json_text cache) \<Rightarrow>
          if cache = JNull
          then Returns (False, console_add Console_error ''Cache load failed'' w)
          else
            (case to_number (get_prop cache ''timestamp'') of
               None \<Rightarrow> Outside_model
             | Some ts \<Rightarrow>
                 if older_than_a_week (clock w) ts then Returns (False, w)
                 else if nullish (get_prop cache ''data'')
                 then Returns (False, console_add Console_error ''Cache load failed'' w)
                 else
                   (let data = or_null (get_prop cache ''data'');
                        w1 = hydrate data ''summary'' w;
                        w2 = hydrate data ''trends'' w1;
                        w3 = hydrate data ''topProblems'' w2;
                        w4 = hydrate data ''inventory'' w3;
                        w5 = hydrate data ''realtimeInterfaces'' w4;
                        w6 = hydrate data ''networkIOTrend'' w5
                    in case new_Date (get_prop cache ''timestamp'') of
                         None \<Rightarrow> Outside_model
                       | Some d \<Rightarrow>
                           Returns (True, console_add Console_log ''[State] Hydrated from cache''
                                            (set_slice ''lastUpdated'' d w6)))))"

subsection \<open>The reducers of \<open>mergeRealtimeUpdate\<close>\<close>

definition then_res :: "'a res \<Rightarrow> ('a \<Rightarrow> 'b res) \<Rightarrow> 'b res" where
  "then_res r f = (case r of Ok x \<Rightarrow> f x | Raise e \<Rightarrow> Raise e | Unmodelled \<Rightarrow> Unmodelled)"

definition incr_field :: "string \<Rightarrow> (string \<times> jsval) list \<Rightarrow> (string \<times> jsval) list res" where
  "incr_field f kvs =
     (case map_of kvs f of
        None \<Rightarrow> Ok kvs
      | Some JNull \<Rightarrow> Ok kvs
      | Some (JNum n) \<Rightarrow> Ok (obj_set f (JNum (n + 1)) kvs)
      | Some _ \<Rightarrow> Unmodelled)"

definition decr_field :: "string \<Rightarrow> (string \<times> jsval) list \<Rightarrow> (string \<times> jsval) list res" where
  "decr_field f kvs =
     (case map_of kvs f of
        None \<Rightarrow> Ok kvs
      | Some JNull \<Rightarrow> Ok kvs
      | Some (JNum n) \<Rightarrow> Ok (obj_set f (JNum (max 0 (n - 1))) kvs)
      | Some _ \<Rightarrow> Unmodelled)"

definition device_counters ::
    "jsval option \<Rightarrow> (string \<times> jsval) list \<Rightarrow> (string \<times> jsval) list res" where
  "device_counters new_state devices =
     (let isDown = (new_state = Some (JStr ''CRITICAL'') \<or> new_state = Some (JStr ''down''));
          isUp = (new_state = Some (JStr ''OK'') \<or> new_state = Some (JStr ''up''))
      in if isDown then
           then_res (incr_field ''offline'' devices) (\<lambda>d1.
           then_res (incr_field ''down'' d1) (\<lambda>d2.
           then_res (decr_field ''online'' d2) (\<lambda>d3.
           decr_field ''up'' d3)))
         else if isUp then
           then_res (incr_field ''online'' devices) (\<lambda>d1.
           then_res (incr_field ''up'' d1) (\<lambda>d2.
           then_res (decr_field ''offline'' d2) (\<lambda>d3.
           decr_field ''down'' d3)))
         else Ok devices)"

definition coalesce :: "jsval option \<Rightarrow> jsval option \<Rightarrow> jsval option" where
  "coalesce a b = (if nullish a then b else a)"

definition online_percent_of :: "(string \<times> jsval) list \<Rightarrow> rat option" where
  "online_percent_of devices =
     (let total = coalesce (map_of devices ''total'') (Some (JNum 0));
          online = coalesce (map_of devices ''online'')
                     (coalesce (map_of devices ''up'') (Some (JNum 0)))
      in case to_number total of
           None \<Rightarrow> None
         | Some NaN \<Rightarrow> Some 0
         | Some (Finite t) \<Rightarrow>
             if t > 0 then
               (case to_number online of
                  Some (Finite x) \<Rightarrow> Some (Math_round ((x / t) * 1000) / 10)
                | _ \<Rightarrow> None)
             else Some 0)"

definition store_percent :: "rat \<Rightarrow> (string \<times> jsval) list \<Rightarrow> (string \<times> jsval) list" where
  "store_percent percent devices =
     (let d1 = (if \<not> nullish (map_of devices ''online_percent'') \<or>
                   nullish (map_of devices ''up_percent'')
                then obj_set ''online_percent'' (JNum percent) devices
                else devices)
      in obj_set ''up_percent'' (JNum percent) d1)"

definition reduce_device_status :: "jsval \<Rightarrow> jsval \<Rightarrow> jsval res" where
  "reduce_device_status payload devices =
     (if payload = JNull then Raise TypeError
      else
        (case devices of
           JObj kvs \<Rightarrow>
             then_res (device_counters (get_prop payload ''new_state'') kvs) (\<lambda>kvs1.
               case online_percent_of kvs1 of
                 None \<Rightarrow> Unmodelled
               | Some percent \<Rightarrow> Ok (JObj (store_percent percent kvs1)))
         | JArr xs \<Rightarrow> Unmodelled
         | JDate d \<Rightarrow> Unmodelled
         | JInvalidDate \<Rightarrow> Unmodelled
         | _ \<Rightarrow> Raise TypeError))"

definition ascii_lower :: "char \<Rightarrow> char" where
  "ascii_lower c =
     (let n = (of_char c :: nat) in if 65 \<le> n \<and> n \<le> 90 then char_of (n + 32) else c)"

definition severity_bucket :: "jsval option \<Rightarrow> string res" where
  "severity_bucket severity =
     (if truthy_opt severity then
        (case severity of
           Some (JStr s) \<Rightarrow>
             Ok (if map ascii_lower s = ''critical'' then ''critical''
                 else if map ascii_lower s = ''warning'' then ''warning''
                 else ''info'')
         | Some (JIsoString d) \<Rightarrow> Ok ''info''
         | _ \<Rightarrow> Raise TypeError)
      else Ok ''info'')"

definition or_zero_plus_one :: "jsval option \<Rightarrow> jsval res" where
  "or_zero_plus_one v =
     (if truthy_opt v then
        (case v of
           Some (JNum n) \<Rightarrow> Ok (JNum (n + 1))
         | Some (JBool b) \<Rightarrow> Ok (JNum 2)
         | Some (JStr s) \<Rightarrow> Ok (JStr (s @ ''1''))
         | _ \<Rightarrow> Unmodelled)
      else Ok (JNum 1))"

definition reduce_alert_created :: "jsval \<Rightarrow> jsval \<Rightarrow> jsval res" where
  "reduce_alert_created payload active_alerts =
     (if payload = JNull then Raise TypeError
      else
        then_res (severity_bucket (get_prop payload ''severity'')) (\<lambda>bucket.
          case active_alerts of
            JObj kvs \<Rightarrow>
              then_res (or_zero_plus_one (map_of kvs bucket)) (\<lambda>v. Ok (JObj (obj_set bucket v kvs)))
          | JArr xs \<Rightarrow> Unmodelled
          | JDate d \<Rightarrow> Unmodelled
          | JInvalidDate \<Rightarrow> Unmodelled
          | _ \<Rightarrow> Raise TypeError))"

definition moving_average :: "rat \<Rightarrow> rat \<Rightarrow> rat" where
  "moving_average currentAvg latency_ms =
     Math_round ((currentAvg * (8 / 10) + latency_ms * (2 / 10)) * 100) / 100"

definition reduce_latency_spike :: "jsval \<Rightarrow> jsval \<Rightarrow> jsval res" where
  "reduce_latency_spike payload network_health =
     (if payload = JNull then Raise TypeError
      else if \<not> truthy_opt (get_prop payload ''latency_ms'') then Ok network_health
      else
        (case get_prop payload ''latency_ms'' of
           Some (JNum latency_ms) \<Rightarrow>
             (case network_health of
                JObj kvs \<Rightarrow>
                  (if truthy_opt (map_of kvs ''avg_latency_ms'') then
                     (case map_of kvs ''avg_latency_ms'' of
                        Some (JNum currentAvg) \<Rightarrow>
                          Ok (JObj (obj_set ''avg_latency_ms''
                                      (JNum (moving_average currentAvg latency_ms)) kvs))
                      | _ \<Rightarrow> Unmodelled)
                   else Ok (JObj (obj_set ''avg_latency_ms''
                                    (JNum (moving_average 0 latency_ms)) kvs)))
              | JArr xs \<Rightarrow> Unmodelled
              | JDate d \<Rightarrow> Unmodelled
              | JInvalidDate \<Rightarrow> Unmodelled
              | _ \<Rightarrow> Raise TypeError)
         | _ \<Rightarrow> Unmodelled))"

definition reduce_member ::
    "string \<Rightarrow> (jsval \<Rightarrow> jsval res) \<Rightarrow> jsval \<Rightarrow> jsval res" where
  "reduce_member k reducer summary =
     (case summary of
        JObj kvs \<Rightarrow>
          (case map_of kvs k of
             None \<Rightarrow> Ok summary
           | Some member \<Rightarrow>
               if truthy member
               then then_res (reducer member) (\<lambda>member'. Ok (JObj (obj_set k member' kvs)))
               else Ok summary)
      | _ \<Rightarrow> Ok summary)"

definition reduce_summary :: "string \<Rightarrow> jsval \<Rightarrow> jsval \<Rightarrow> jsval res" where
  "reduce_summary eventType payload summary =
     (if eventType = ''device_status''
      then reduce_member ''devices'' (reduce_device_status payload) summary
      else if eventType = ''alert_created''
      then reduce_member ''active_alerts'' (reduce_alert_created payload) summary
      else if eventType = ''latency_spike''
      then reduce_member ''network_health'' (reduce_latency_spike payload) summary
      else Ok summary)"

definition alert_message :: "jsval \<Rightarrow> jsval res" where
  "alert_message payload =
     (if truthy_opt (get_prop payload ''message'') then Ok (or_null (get_prop payload ''message''))
      else
        (case get_prop payload ''metric_name'' of
           None \<Rightarrow> Ok (JStr ''undefined alert'')
         | Some JNull \<Rightarrow> Ok (JStr ''null alert'')
         | Some (JBool b) \<Rightarrow> Ok (JStr (if b then ''true alert'' else ''false alert''))
         | Some (JStr s) \<Rightarrow> Ok (JStr (s @ '' alert''))
         | Some _ \<Rightarrow> Unmodelled))"

definition newAlert :: "jsval \<Rightarrow> int \<Rightarrow> jsval res" where
  "newAlert payload now =
     then_res (alert_message payload) (\<lambda>message.
       Ok (JObj [(''device_ip'', or_null (get_prop payload ''device_ip'')),
                 (''message'', message),
                 (''severity'', if truthy_opt (get_prop payload ''severity'')
                                then or_null (get_prop payload ''severity'')
                                else JStr ''WARNING''),
                 (''time'', JIsoString now)]))"

definition reduce_topProblems :: "jsval \<Rightarrow> int \<Rightarrow> jsval \<Rightarrow> jsval res" where
  "reduce_topProblems payload now topProblems =
     (if payload = JNull then Raise TypeError
      else
        then_res (newAlert payload now) (\<lambda>alert.
          case topProblems of
            JObj kvs \<Rightarrow>
              (case (if truthy_opt (map_of kvs ''recent_alerts'')
                     then or_null (map_of kvs ''recent_alerts'') else JArr []) of
                 JArr xs \<Rightarrow> Ok (JObj (obj_set ''recent_alerts'' (JArr (take 10 (alert # xs))) kvs))
               | _ \<Rightarrow> Raise TypeError)
          | JArr xs \<Rightarrow> Unmodelled
          | JDate d \<Rightarrow> Unmodelled
          | JInvalidDate \<Rightarrow> Unmodelled
          | _ \<Rightarrow> Raise TypeError))"

definition push_realtime_event :: "string \<Rightarrow> jsval \<Rightarrow> int \<Rightarrow> jsval list \<Rightarrow> jsval list" where
  "push_realtime_event eventType payload now events =
     (let events1 = JObj [(''type'', JStr eventType), (''payload'', payload),
                          (''timestamp'', JDate now)] # events
      in if length events1 > 50 then butlast events1 else events1)"

definition mergeRealtimeUpdate :: "string \<Rightarrow> jsval \<Rightarrow> store \<Rightarrow> store outcome" where
  "mergeRealtimeUpdate eventType payload w =
     (let w0 = console_add Console_log (''[State] Merging real-time update: '' @ eventType) w
      in case slice w0 ''realtimeEvents'' of
           JArr events \<Rightarrow>
             (let w1 = set_slice ''realtimeEvents''
                         (JArr (push_realtime_event eventType payload (clock w0) events)) w0
              in case (if truthy (slice w1 ''summary'')
                       then reduce_summary eventType payload (slice w1 ''summary'')
                       else Ok (slice w1 ''summary'')) of
                   Raise e \<Rightarrow> Throws e w1
                 | Unmodelled \<Rightarrow> Outside_model
                 | Ok summary \<Rightarrow>
                     (let w2 = set_slice ''summary'' summary w1
                      in case (if eventType = ''alert_created'' \<and> truthy (slice w2 ''topProblems'')
                               then reduce_topProblems payload (clock w2) (slice w2 ''topProblems'')
                               else Ok (slice w2 ''topProblems'')) of
                           Raise e \<Rightarrow> Throws e w2
                         | Unmodelled \<Rightarrow> Outside_model
                         | Ok topProblems \<Rightarrow>
                             Returns (notifyListeners
                               (set_slice ''lastUpdated'' (JDate (clock w2))
                                  (set_slice ''topProblems'' topProblems w2)))))
         | _ \<Rightarrow> Throws TypeError w0)"

text \<open>The value that a call returns, if it returns.\<close>

definition returned :: "'a outcome \<Rightarrow> 'a option" where
  "returned r = (case r of Returns x \<Rightarrow> Some x | _ \<Rightarrow> None)"


section \<open>The fallback coordinator (the dashboard orchestrator, src/unnamed/part_002)\<close>

text \<open>
  The orchestrator keeps \<open>pollingInterval\<close>, the handle of the polling loop or \<open>null\<close>. The
  browser's table of interval timers is part of the state: \<open>active_intervals\<close> holds the
  handle and the period of every \<open>refreshAll\<close> loop that \<open>setInterval\<close> has started and
  \<open>clearInterval\<close> has not cancelled. Handles are positive. Rendering is not part of the
  model.
\<close>

record dashboard =
  state_store :: store
  pollingInterval :: "nat option"
  active_intervals :: "(nat \<times> nat) list"
  next_interval_handle :: nat
  refreshAll_calls :: nat

definition POLLING_INTERVAL_MS :: nat where "POLLING_INTERVAL_MS = 30000"

definition dashboard_initial :: "store \<Rightarrow> dashboard" where
  "dashboard_initial w =
     \<lparr>state_store = w, pollingInterval = None, active_intervals = [],
      next_interval_handle = 1, refreshAll_calls = 0\<rparr>"

definition handle_truthy :: "nat option \<Rightarrow> bool" where
  "handle_truthy h = (case h of None \<Rightarrow> False | Some n \<Rightarrow> n \<noteq> 0)"

definition startPollingFallback :: "dashboard \<Rightarrow> dashboard" where
  "startPollingFallback d =
     (if handle_truthy (pollingInterval d) then d
      else d\<lparr>pollingInterval := Some (next_interval_handle d),
             active_intervals :=
               active_intervals d @ [(next_interval_handle d, POLLING_INTERVAL_MS)],
             next_interval_handle := Suc (next_interval_handle d)\<rparr>)"

definition stopPollingFallback :: "dashboard \<Rightarrow> dashboard" where
  "stopPollingFallback d =
     (if \<not> handle_truthy (pollingInterval d) then d
      else d\<lparr>active_intervals :=
               filter (\<lambda>t. Some (fst t) \<noteq> pollingInterval d) (active_intervals d),
             pollingInterval := None\<rparr>)"

definition then_do :: "'a outcome \<Rightarrow> ('a \<Rightarrow> 'b outcome) \<Rightarrow> 'b outcome" where
  "then_do r f =
     (case r of Returns x \<Rightarrow> f x | Throws e w \<Rightarrow> Throws e w | Outside_model \<Rightarrow> Outside_model)"

definition with_store :: "(store \<Rightarrow> store outcome) \<Rightarrow> dashboard \<Rightarrow> dashboard outcome" where
  "with_store f d = then_do (f (state_store d)) (\<lambda>w. Returns (d\<lparr>state_store := w\<rparr>))"

definition status_string :: "ConnectionStatus \<Rightarrow> string" where
  "status_string status =
     (case status of
        CONNECTED \<Rightarrow> ''connected''
      | CONNECTING \<Rightarrow> ''connecting''
      | DISCONNECTED \<Rightarrow> ''disconnected'')"

text \<open>
  The synchronous part of \<open>refreshAll\<close>: it sets \<open>isLoading\<close>; the fetches it starts deliver
  their results later, each through a call of \<open>updateState\<close>.
\<close>

definition refreshAll :: "dashboard \<Rightarrow> dashboard outcome" where
  "refreshAll d =
     with_store (updateState ''isLoading'' (JBool True))
       (d\<lparr>refreshAll_calls := Suc (refreshAll_calls d)\<rparr>)"

text \<open>The \<open>onConnectionChange\<close> callback that \<open>initDashboard\<close> passes to \<open>initSSE\<close>.\<close>

definition dashboard_onConnectionChange :: "ConnectionStatus \<Rightarrow> dashboard \<Rightarrow> dashboard outcome" where
  "dashboard_onConnectionChange status d =
     then_do (with_store (updateState ''connectionStatus'' (JStr (status_string status))) d)
       (\<lambda>d1. Returns (if status = DISCONNECTED then startPollingFallback d1
                       else if status = CONNECTED then stopPollingFallback d1
                       else d1))"

text \<open>The \<open>visibilitychange\<close> listener, when the tab has become visible.\<close>

definition lastUpdate_time :: "jsval \<Rightarrow> number option" where
  "lastUpdate_time lastUpdated =
     (if truthy lastUpdated
      then (case new_Date (Some lastUpdated) of
              None \<Rightarrow> None
            | Some d \<Rightarrow> to_number (Some d))
      else Some (Finite 0))"

definition on_tab_visible :: "dashboard \<Rightarrow> dashboard outcome" where
  "on_tab_visible d =
     (let state = getState (state_store d);
          now = clock (state_store d)
      in case lastUpdate_time (or_null (map_of state ''lastUpdated'')) of
           None \<Rightarrow> Outside_model
         | Some lastUpdate \<Rightarrow>
             then_do (if (case lastUpdate of NaN \<Rightarrow> False | Finite t \<Rightarrow> of_int now - t > 30000)
                      then refreshAll d else Returns d)
               (\<lambda>d1. Returns (if or_null (map_of state ''connectionStatus'') = JStr ''disconnected''
                               then startPollingFallback d1 else d1)))"

text \<open>
  What happens to the coordinator: a connection-status notification, the tab becoming
  visible, a tick of the polling loop, and time passing.
\<close>

datatype dashboard_op = Status_changed ConnectionStatus | Tab_visible | Poll_tick | Time_passes nat

definition dashboard_step :: "dashboard_op \<Rightarrow> dashboard \<Rightarrow> dashboard outcome" where
  "dashboard_step op d =
     (case op of
        Status_changed status \<Rightarrow> dashboard_onConnectionChange status d
      | Tab_visible \<Rightarrow> on_tab_visible d
      | Poll_tick \<Rightarrow> if active_intervals d = [] then Returns d else refreshAll d
      | Time_passes ms \<Rightarrow>
          Returns (d\<lparr>state_store := (state_store d)\<lparr>clock := clock (state_store d) + int ms\<rparr>\<rparr>))"

fun dashboard_run :: "dashboard_op list \<Rightarrow> dashboard \<Rightarrow> dashboard outcome" where
  "dashboard_run [] d = Returns d"
| "dashboard_run (op # ops) d = then_do (dashboard_step op d) (dashboard_run ops)"

section \<open>Sample data and invariants\<close>

subsection \<open>A persisted snapshot\<close>

text \<open>A snapshot as \<open>saveToCache\<close> writes it, with a summary and the other five slices \<open>null\<close>.\<close>

definition sample_snapshot :: stored where
  "sample_snapshot =
     Json_text (JObj
       [(''timestamp'', JNum 1700000000000),
        (''data'', JObj
           [(''summary'', JObj [(''devices'', JObj [(''total'', JNum 10)])]),
            (''trends'', JNull), (''topProblems'', JNull), (''inventory'', JNull),
            (''realtimeInterfaces'', JNull), (''networkIOTrend'', JNull)])])"

subsection \<open>The polling loop and its handle\<close>

text \<open>
  Handles are positive and below the next one; \<open>pollingInterval\<close> is \<open>null\<close> when no loop is
  active and the handle of the only active loop otherwise; the state object owns the
  slices that the coordinator writes and reads, and \<open>lastUpdated\<close> is \<open>null\<close> or a \<open>Date\<close>.
\<close>

definition poll_inv :: "dashboard \<Rightarrow> bool" where
  "poll_inv d =
     (0 < next_interval_handle d \<and>
      (case pollingInterval d of
         None \<Rightarrow> active_intervals d = []
       | Some h \<Rightarrow> 0 < h \<and> h < next_interval_handle d \<and>
                   active_intervals d = [(h, POLLING_INTERVAL_MS)]) \<and>
      {''connectionStatus'', ''isLoading'', ''lastUpdated''}
        \<subseteq> set (map fst (dashboardState (state_store d))) \<and>
      (slice (state_store d) ''lastUpdated'' = JNull \<or>
       (\<exists>t. slice (state_store d) ''lastUpdated'' = JDate t)))"


section \<open>Properties of the push-channel client\<close>

subsection \<open>What each function leaves alone\<close>

lemma clearTimeout_simps [simp]:
  "eventSource (clearTimeout h s) = eventSource s"
  "connectionStatus (clearTimeout h s) = connectionStatus s"
  "retryDelay (clearTimeout h s) = retryDelay s"
  "retryTimeout (clearTimeout h s) = retryTimeout s"
  "heartbeatTimeout (clearTimeout h s) = heartbeatTimeout s"
  "lastEventIds (clearTimeout h s) = lastEventIds s"
  "eventBuffer (clearTimeout h s) = eventBuffer s"
  "debounceTimer (clearTimeout h s) = debounceTimer s"
  "onConnectionChange (clearTimeout h s) = onConnectionChange s"
  "eventHandlers (clearTimeout h s) = eventHandlers s"
  "next_handle (clearTimeout h s) = next_handle s"
  "status_calls (clearTimeout h s) = status_calls s"
  "handler_calls (clearTimeout h s) = handler_calls s"
  "setTimeout_calls (clearTimeout h s) = setTimeout_calls s"
  by (simp_all add: clearTimeout_def split: option.splits)

lemma clearTimeout_timers:
  "timers (clearTimeout h s) =
     (case h of None \<Rightarrow> timers s | Some n \<Rightarrow> filter (\<lambda>t. fst t \<noteq> n) (timers s))"
  by (simp add: clearTimeout_def split: option.splits)

lemma setTimeout_simps [simp]:
  "eventSource (setTimeout k d s) = eventSource s"
  "connectionStatus (setTimeout k d s) = connectionStatus s"
  "retryDelay (setTimeout k d s) = retryDelay s"
  "retryTimeout (setTimeout k d s) = retryTimeout s"
  "heartbeatTimeout (setTimeout k d s) = heartbeatTimeout s"
  "lastEventIds (setTimeout k d s) = lastEventIds s"
  "eventBuffer (setTimeout k d s) = eventBuffer s"
  "debounceTimer (setTimeout k d s) = debounceTimer s"
  "onConnectionChange (setTimeout k d s) = onConnectionChange s"
  "eventHandlers (setTimeout k d s) = eventHandlers s"
  "status_calls (setTimeout k d s) = status_calls s"
  "handler_calls (setTimeout k d s) = handler_calls s"
  "timers (setTimeout k d s) = timers s @ [(next_handle s, k, d)]"
  "next_handle (setTimeout k d s) = Suc (next_handle s)"
  "setTimeout_calls (setTimeout k d s) = setTimeout_calls s @ [(k, d)]"
  by (simp_all add: setTimeout_def)

lemma setConnectionStatus_simps [simp]:
  "eventSource (setConnectionStatus st s) = eventSource s"
  "connectionStatus (setConnectionStatus st s) = st"
  "retryDelay (setConnectionStatus st s) = retryDelay s"
  "retryTimeout (setConnectionStatus st s) = retryTimeout s"
  "heartbeatTimeout (setConnectionStatus st s) = heartbeatTimeout s"
  "lastEventIds (setConnectionStatus st s) = lastEventIds s"
  "eventBuffer (setConnectionStatus st s) = eventBuffer s"
  "debounceTimer (setConnectionStatus st s) = debounceTimer s"
  "onConnectionChange (setConnectionStatus st s) = onConnectionChange s"
  "eventHandlers (setConnectionStatus st s) = eventHandlers s"
  "timers (setConnectionStatus st s) = timers s"
  "next_handle (setConnectionStatus st s) = next_handle s"
  "handler_calls (setConnectionStatus st s) = handler_calls s"
  "setTimeout_calls (setConnectionStatus st s) = setTimeout_calls s"
  by (simp_all add: setConnectionStatus_def Let_def)

lemma setConnectionStatus_calls:
  "status_calls (setConnectionStatus st s) =
     (if connectionStatus s \<noteq> st \<and> onConnectionChange s then status_calls s @ [st]
      else status_calls s)"
  by (simp add: setConnectionStatus_def Let_def)

lemma resetHeartbeatTimeout_simps [simp]:
  "eventSource (resetHeartbeatTimeout s) = eventSource s"
  "connectionStatus (resetHeartbeatTimeout s) = connectionStatus s"
  "retryDelay (resetHeartbeatTimeout s) = retryDelay s"
  "retryTimeout (resetHeartbeatTimeout s) = retryTimeout s"
  "lastEventIds (resetHeartbeatTimeout s) = lastEventIds s"
  "eventBuffer (resetHeartbeatTimeout s) = eventBuffer s"
  "debounceTimer (resetHeartbeatTimeout s) = debounceTimer s"
  "onConnectionChange (resetHeartbeatTimeout s) = onConnectionChange s"
  "eventHandlers (resetHeartbeatTimeout s) = eventHandlers s"
  "status_calls (resetHeartbeatTimeout s) = status_calls s"
  "handler_calls (resetHeartbeatTimeout s) = handler_calls s"
  "next_handle (resetHeartbeatTimeout s) = Suc (next_handle s)"
  "setTimeout_calls (resetHeartbeatTimeout s) = setTimeout_calls s @ [(Heartbeat, HEARTBEAT_TIMEOUT)]"
  by (simp_all add: resetHeartbeatTimeout_def Let_def)

lemma handleDisconnect_simps [simp]:
  "eventSource (handleDisconnect s) = None"
  "connectionStatus (handleDisconnect s) = DISCONNECTED"
  "retryDelay (handleDisconnect s) = min (retryDelay s * 2) MAX_RETRY_DELAY"
  "retryTimeout (handleDisconnect s) = Some (next_handle s)"
  "heartbeatTimeout (handleDisconnect s) = heartbeatTimeout s"
  "lastEventIds (handleDisconnect s) = lastEventIds s"
  "eventBuffer (handleDisconnect s) = eventBuffer s"
  "debounceTimer (handleDisconnect s) = debounceTimer s"
  "onConnectionChange (handleDisconnect s) = onConnectionChange s"
  "eventHandlers (handleDisconnect s) = eventHandlers s"
  "handler_calls (handleDisconnect s) = handler_calls s"
  "next_handle (handleDisconnect s) = Suc (next_handle s)"
  "setTimeout_calls (handleDisconnect s) = setTimeout_calls s @ [(Retry, retryDelay s)]"
  by (simp_all add: handleDisconnect_def Let_def split: option.splits)

lemma handleDisconnect_calls:
  "status_calls (handleDisconnect s) =
     (if connectionStatus s \<noteq> DISCONNECTED \<and> onConnectionChange s
      then status_calls s @ [DISCONNECTED] else status_calls s)"
  by (simp add: handleDisconnect_def Let_def setConnectionStatus_calls split: option.splits)

lemma handleDisconnect_timers:
  "timers (handleDisconnect s) =
     timers (clearTimeout (heartbeatTimeout s) s) @ [(next_handle s, Retry, retryDelay s)]"
  by (simp add: handleDisconnect_def Let_def clearTimeout_timers split: option.splits)

lemma connect_simps [simp]:
  "connectionStatus (connect ok s) = (if ok then CONNECTING else DISCONNECTED)"
  "lastEventIds (connect ok s) = lastEventIds s"
  "eventBuffer (connect ok s) = eventBuffer s"
  "debounceTimer (connect ok s) = debounceTimer s"
  "onConnectionChange (connect ok s) = onConnectionChange s"
  "eventHandlers (connect ok s) = eventHandlers s"
  "handler_calls (connect ok s) = handler_calls s"
  "heartbeatTimeout (connect ok s) = heartbeatTimeout s"
  by (simp_all add: connect_def Let_def split: option.splits)

lemma disconnect_simps [simp]:
  "eventSource (disconnect s) = None"
  "connectionStatus (disconnect s) = DISCONNECTED"
  "retryDelay (disconnect s) = retryDelay s"
  "lastEventIds (disconnect s) = lastEventIds s"
  "eventBuffer (disconnect s) = eventBuffer s"
  "debounceTimer (disconnect s) = debounceTimer s"
  "onConnectionChange (disconnect s) = onConnectionChange s"
  "eventHandlers (disconnect s) = eventHandlers s"
  "handler_calls (disconnect s) = handler_calls s"
  "next_handle (disconnect s) = next_handle s"
  "setTimeout_calls (disconnect s) = setTimeout_calls s"
  by (simp_all add: disconnect_def Let_def split: option.splits)


lemma onopen_simps [simp]:
  "connectionStatus (onopen s) = CONNECTED"
  "retryDelay (onopen s) = INITIAL_RETRY_DELAY"
  "lastEventIds (onopen s) = lastEventIds s"
  "eventBuffer (onopen s) = eventBuffer s"
  "onConnectionChange (onopen s) = onConnectionChange s"
  "eventHandlers (onopen s) = eventHandlers s"
  "handler_calls (onopen s) = handler_calls s"
  by (simp_all add: onopen_def)

lemma reconnect_simps [simp]:
  "lastEventIds (reconnect ok s) = lastEventIds s"
  "eventBuffer (reconnect ok s) = eventBuffer s"
  "onConnectionChange (reconnect ok s) = onConnectionChange s"
  "eventHandlers (reconnect ok s) = eventHandlers s"
  "handler_calls (reconnect ok s) = handler_calls s"
  by (simp_all add: reconnect_def)

lemma scheduleEventFlush_simps [simp]:
  "connectionStatus (scheduleEventFlush s) = connectionStatus s"
  "lastEventIds (scheduleEventFlush s) = lastEventIds s"
  "eventBuffer (scheduleEventFlush s) = eventBuffer s"
  "onConnectionChange (scheduleEventFlush s) = onConnectionChange s"
  "eventHandlers (scheduleEventFlush s) = eventHandlers s"
  "status_calls (scheduleEventFlush s) = status_calls s"
  "handler_calls (scheduleEventFlush s) = handler_calls s"
  by (simp_all add: scheduleEventFlush_def Let_def split: option.splits)

lemma flushEventBuffer_simps [simp]:
  "connectionStatus (flushEventBuffer s) = connectionStatus s"
  "lastEventIds (flushEventBuffer s) = lastEventIds s"
  "eventBuffer (flushEventBuffer s) = []"
  "onConnectionChange (flushEventBuffer s) = onConnectionChange s"
  "eventHandlers (flushEventBuffer s) = eventHandlers s"
  "status_calls (flushEventBuffer s) = status_calls s"
  by (simp_all add: flushEventBuffer_def)

lemma handleEvent_simps [simp]:
  "connectionStatus (handleEvent t f s) = connectionStatus s"
  "onConnectionChange (handleEvent t f s) = onConnectionChange s"
  "eventHandlers (handleEvent t f s) = eventHandlers s"
  "status_calls (handleEvent t f s) = status_calls s"
  "handler_calls (handleEvent t f s) = handler_calls s"
  by (simp_all add: handleEvent_def Let_def split: frame.splits)

lemma fire_simps [simp]:
  "lastEventIds (fire h ok s) = lastEventIds s"
  "onConnectionChange (fire h ok s) = onConnectionChange s"
  "eventHandlers (fire h ok s) = eventHandlers s"
  by (simp_all add: fire_def Let_def split: option.splits timer_kind.splits)

subsection \<open>Notifications\<close>

lemma notify_inv_cong:
  "notify_inv s \<Longrightarrow> connectionStatus s' = connectionStatus s \<Longrightarrow>
   status_calls s' = status_calls s \<Longrightarrow> onConnectionChange s' = onConnectionChange s \<Longrightarrow>
   notify_inv s'"
  by (simp add: notify_inv_def)

lemma notify_inv_set: "notify_inv s \<Longrightarrow> notify_inv (setConnectionStatus st s)"
  by (auto simp: notify_inv_def setConnectionStatus_calls distinct_adj_append_iff)

lemma notify_inv_handleDisconnect: "notify_inv s \<Longrightarrow> notify_inv (handleDisconnect s)"
  by (auto simp: notify_inv_def handleDisconnect_calls distinct_adj_append_iff)

lemma connect_calls:
  "status_calls (connect ok s) =
     status_calls (if ok then setConnectionStatus CONNECTING s
                   else setConnectionStatus DISCONNECTED (setConnectionStatus CONNECTING s))"
  by (simp add: connect_def Let_def handleDisconnect_calls setConnectionStatus_calls
      split: option.splits)

lemma notify_inv_connect: "notify_inv s \<Longrightarrow> notify_inv (connect ok s)"
proof -
  assume a: "notify_inv s"
  have b: "notify_inv (setConnectionStatus CONNECTING s)" using a by (rule notify_inv_set)
  show ?thesis
  proof (cases ok)
    case True
    from b show ?thesis by (rule notify_inv_cong) (simp_all add: True connect_calls)
  next
    case False
    from notify_inv_set[OF b, of DISCONNECTED] show ?thesis
      by (rule notify_inv_cong) (simp_all add: False connect_calls)
  qed
qed

lemma notify_inv_onopen: "notify_inv s \<Longrightarrow> notify_inv (onopen s)"
proof -
  assume "notify_inv s"
  then have "notify_inv (setConnectionStatus CONNECTED s)" by (rule notify_inv_set)
  then show ?thesis by (rule notify_inv_cong) (simp_all add: onopen_def)
qed

lemma disconnect_calls:
  "status_calls (disconnect s) = status_calls (setConnectionStatus DISCONNECTED s)"
  by (simp add: disconnect_def Let_def setConnectionStatus_calls split: option.splits)

lemma notify_inv_disconnect: "notify_inv s \<Longrightarrow> notify_inv (disconnect s)"
proof -
  assume "notify_inv s"
  then have "notify_inv (setConnectionStatus DISCONNECTED s)" by (rule notify_inv_set)
  then show ?thesis by (rule notify_inv_cong) (simp_all add: disconnect_calls)
qed

lemma notify_inv_reconnect: "notify_inv s \<Longrightarrow> notify_inv (reconnect ok s)"
proof -
  assume "notify_inv s"
  then have "notify_inv (disconnect s)" by (rule notify_inv_disconnect)
  then have "notify_inv ((disconnect s)\<lparr>retryDelay := INITIAL_RETRY_DELAY\<rparr>)"
    by (rule notify_inv_cong) simp_all
  then show ?thesis unfolding reconnect_def by (rule notify_inv_connect)
qed

lemma notify_inv_fire: "notify_inv s \<Longrightarrow> notify_inv (fire h ok s)"
proof -
  assume a: "notify_inv s"
  have b: "notify_inv (s\<lparr>timers := ts\<rparr>)" for ts
    using a by (rule notify_inv_cong) simp_all
  show ?thesis
  proof (cases "find (\<lambda>t. fst t = h) (timers s)")
    case None
    with a show ?thesis by (simp add: fire_def)
  next
    case (Some t)
    show ?thesis
    proof (cases "fst (snd t)")
      case Retry
      with Some notify_inv_connect[OF b] show ?thesis by (simp add: fire_def)
    next
      case Heartbeat
      with Some notify_inv_handleDisconnect[OF b] show ?thesis by (simp add: fire_def)
    next
      case Debounce
      with Some show ?thesis
        by (simp add: fire_def) (rule notify_inv_cong[OF b], simp_all)
    qed
  qed
qed

lemma notify_inv_step: "notify_inv s \<Longrightarrow> notify_inv (sse_step op s)"
proof (cases op)
  case Ev_open
  assume "notify_inv s" then show ?thesis by (simp add: sse_step_def Ev_open notify_inv_onopen)
next
  case Ev_error
  assume "notify_inv s" then show ?thesis
    by (simp add: sse_step_def Ev_error onerror_def notify_inv_handleDisconnect)
next
  case Ev_connected
  assume a: "notify_inv s"
  have "notify_inv (on_connected s)"
    using a by (rule notify_inv_cong) (simp_all add: on_connected_def)
  with a show ?thesis by (simp add: sse_step_def Ev_connected)
next
  case (Ev_event t f)
  assume a: "notify_inv s"
  have "notify_inv (handleEvent t f s)" using a by (rule notify_inv_cong) simp_all
  with a show ?thesis by (simp add: sse_step_def Ev_event)
next
  case (Ev_timer h ok)
  assume "notify_inv s" then show ?thesis by (simp add: sse_step_def Ev_timer notify_inv_fire)
next
  case Call_disconnect
  assume "notify_inv s" then show ?thesis
    by (simp add: sse_step_def Call_disconnect notify_inv_disconnect)
next
  case (Call_reconnect ok)
  assume "notify_inv s" then show ?thesis
    by (simp add: sse_step_def Call_reconnect notify_inv_reconnect)
qed

lemma notify_inv_run: "notify_inv s \<Longrightarrow> notify_inv (sse_run ops s)"
  unfolding sse_run_def
  by (induction ops arbitrary: s) (simp_all add: notify_inv_step)

lemma notify_inv_initSSE:
  "opt_onConnectionChange options \<Longrightarrow> notify_inv (initSSE options ok sse_initial)"
proof -
  assume a: "opt_onConnectionChange options"
  have "notify_inv (sse_initial\<lparr>eventHandlers := hs, onConnectionChange := True\<rparr>)" for hs
    by (simp add: notify_inv_def sse_initial_def)
  then show ?thesis using a unfolding initSSE_def by (simp add: notify_inv_connect)
qed


text \<open>
  C10. The status setter called with the current status changes nothing and notifies
  nobody; called with another status it stores it and calls the registered callback once
  with it. Hence, in every run of the client after \<open>initSSE\<close> with a callback, no two
  successive notifications carry the same status.
\<close>

theorem status_notified_only_on_change:
  "(connectionStatus s = status \<longrightarrow> setConnectionStatus status s = s) \<and>
   (connectionStatus s \<noteq> status \<longrightarrow>
      connectionStatus (setConnectionStatus status s) = status \<and>
      status_calls (setConnectionStatus status s) =
        (if onConnectionChange s then status_calls s @ [status] else status_calls s)) \<and>
   (opt_onConnectionChange options \<longrightarrow>
      distinct_adj (status_calls (sse_run ops (initSSE options ok sse_initial))))"
proof (intro conjI impI)
  show "setConnectionStatus status s = s" if "connectionStatus s = status"
    using that by (simp add: setConnectionStatus_def)
  show "connectionStatus (setConnectionStatus status s) = status" by simp
  show "status_calls (setConnectionStatus status s) =
        (if onConnectionChange s then status_calls s @ [status] else status_calls s)"
    if "connectionStatus s \<noteq> status"
    using that by (simp add: setConnectionStatus_calls)
  show "distinct_adj (status_calls (sse_run ops (initSSE options ok sse_initial)))"
    if "opt_onConnectionChange options"
    using notify_inv_run[OF notify_inv_initSSE[OF that], of ops ok]
    by (simp add: notify_inv_def)
qed

theorem status_notified_only_on_change_witness:
  "setConnectionStatus DISCONNECTED sse_initial = sse_initial \<and>
   connectionStatus (setConnectionStatus CONNECTED sse_initial) = CONNECTED \<and>
   status_calls (setConnectionStatus CONNECTED sse_initial) = [] \<and>
   distinct_adj (status_calls (sse_run [Ev_open, Ev_error, Ev_timer 2 True, Ev_open]
      (initSSE dashboard_options True sse_initial)))"
  using status_notified_only_on_change
    [of sse_initial DISCONNECTED dashboard_options "[Ev_open, Ev_error, Ev_timer 2 True, Ev_open]" True]
    status_notified_only_on_change
    [of sse_initial CONNECTED dashboard_options "[]" True]
  by (simp add: sse_initial_def dashboard_options_def)

lemma track_id_new:
  "x \<notin> set ids \<Longrightarrow> length ids < 100 \<Longrightarrow> track_id x ids = ids @ [x]"
  by (simp add: track_id_def set_add_def)

lemma track_id_full:
  "x \<notin> set ids \<Longrightarrow> distinct ids \<Longrightarrow> length ids = 100 \<Longrightarrow> track_id x ids = tl ids @ [x]"
proof -
  assume x: "x \<notin> set ids" and d: "distinct ids" and l: "length ids = 100"
  from l obtain a as where ids: "ids = a # as" by (cases ids) auto
  have "filter (\<lambda>y. y \<noteq> a) (as @ [x]) = as @ [x]"
    using d x ids by (auto simp: filter_id_conv)
  with l ids x show ?thesis by (simp add: track_id_def set_add_def)
qed

lemma track_id_inv:
  "distinct ids \<Longrightarrow> length ids \<le> 100 \<Longrightarrow> x \<notin> set ids \<Longrightarrow>
   distinct (track_id x ids) \<and> length (track_id x ids) \<le> 100 \<and>
   set (track_id x ids) \<subseteq> insert x (set ids)"
proof (cases "length ids = 100")
  case True
  assume "distinct ids" "x \<notin> set ids"
  with True show ?thesis
    by (cases ids) (auto simp: track_id_full distinct_tl)
next
  case False
  assume "distinct ids" "length ids \<le> 100" "x \<notin> set ids"
  with False show ?thesis by (simp add: track_id_new)
qed

lemma handleEvent_window:
  "lastEventIds (handleEvent t f s) =
     (case f of
        Unparseable \<Rightarrow> lastEventIds s
      | Parsed d \<Rightarrow>
          if truthy_id (event_id d) \<and> the (event_id d) \<notin> set (lastEventIds s)
          then track_id (the (event_id d)) (lastEventIds s) else lastEventIds s)"
  by (simp add: handleEvent_def Let_def split: frame.splits)

lemma handleEvent_buffer:
  "eventBuffer (handleEvent t f s) =
     (case f of
        Unparseable \<Rightarrow> eventBuffer s
      | Parsed d \<Rightarrow>
          if truthy_id (event_id d) \<and> the (event_id d) \<in> set (lastEventIds s)
          then eventBuffer s else eventBuffer s @ [(t, d)])"
  by (simp add: handleEvent_def Let_def split: frame.splits)

lemma window_inv_cong: "window_inv s \<Longrightarrow> lastEventIds s' = lastEventIds s \<Longrightarrow> window_inv s'"
  by (simp add: window_inv_def)

lemma window_inv_handleEvent: "window_inv s \<Longrightarrow> window_inv (handleEvent t f s)"
proof (cases f)
  case Unparseable
  assume "window_inv s"
  then show ?thesis by (rule window_inv_cong) (simp add: handleEvent_window Unparseable)
next
  case (Parsed d)
  assume a: "window_inv s"
  show ?thesis
  proof (cases "truthy_id (event_id d) \<and> the (event_id d) \<notin> set (lastEventIds s)")
    case True
    then have ne: "the (event_id d) \<noteq> []"
      by (auto simp: truthy_id_def split: option.splits)
    from a True have
      "distinct (track_id (the (event_id d)) (lastEventIds s)) \<and>
       length (track_id (the (event_id d)) (lastEventIds s)) \<le> 100 \<and>
       set (track_id (the (event_id d)) (lastEventIds s)) \<subseteq>
         insert (the (event_id d)) (set (lastEventIds s))"
      by (intro track_id_inv) (simp_all add: window_inv_def)
    with a ne True show ?thesis
      by (auto simp: window_inv_def handleEvent_window Parsed)
  next
    case False
    from a show ?thesis
      by (rule window_inv_cong) (use False in \<open>auto simp: handleEvent_window Parsed\<close>)
  qed
qed

lemma window_inv_step: "window_inv s \<Longrightarrow> window_inv (sse_step op s)"
proof (cases op)
  case (Ev_event t f)
  assume "window_inv s"
  then show ?thesis by (simp add: sse_step_def Ev_event window_inv_handleEvent)
qed (auto simp: sse_step_def window_inv_def on_connected_def onerror_def)

lemma window_inv_run: "window_inv s \<Longrightarrow> window_inv (sse_run ops s)"
  unfolding sse_run_def
  by (induction ops arbitrary: s) (simp_all add: window_inv_step)

lemma window_inv_initSSE: "window_inv (initSSE options ok sse_initial)"
  by (simp add: window_inv_def initSSE_def sse_initial_def)

subsection \<open>Backoff\<close>

lemma find_handle:
  "distinct (map fst ts) \<Longrightarrow> (h, v) \<in> set ts \<Longrightarrow> find (\<lambda>t. fst t = h) ts = Some (h, v)"
  by (induction ts) (auto simp: rev_image_eqI)

lemma connect_ok_simps [simp]:
  "retryDelay (connect True s) = retryDelay s"
  "retryTimeout (connect True s) = retryTimeout s"
  "timers (connect True s) = timers s"
  "next_handle (connect True s) = next_handle s"
  "setTimeout_calls (connect True s) = setTimeout_calls s"
  by (simp_all add: connect_def Let_def split: option.splits)

lemma connect_fail_simps [simp]:
  "retryDelay (connect False s) = min (retryDelay s * 2) MAX_RETRY_DELAY"
  "retryTimeout (connect False s) = Some (next_handle s)"
  "next_handle (connect False s) = Suc (next_handle s)"
  "setTimeout_calls (connect False s) = setTimeout_calls s @ [(Retry, retryDelay s)]"
  by (simp_all add: connect_def Let_def split: option.splits)

lemma connect_fail_timers:
  "timers (connect False s) =
     timers (clearTimeout (heartbeatTimeout s) s) @ [(next_handle s, Retry, retryDelay s)]"
  by (simp add: connect_def Let_def handleDisconnect_timers clearTimeout_timers split: option.splits)

lemma failed_attempt_fields:
  "retryDelay (attempt_fails ok (connect ok s)) = min (retryDelay s * 2) MAX_RETRY_DELAY"
  "retryTimeout (attempt_fails ok (connect ok s)) = Some (next_handle s)"
  "next_handle (attempt_fails ok (connect ok s)) = Suc (next_handle s)"
  "setTimeout_calls (attempt_fails ok (connect ok s)) = setTimeout_calls s @ [(Retry, retryDelay s)]"
  "timers (attempt_fails ok (connect ok s)) =
     timers (clearTimeout (heartbeatTimeout s) s) @ [(next_handle s, Retry, retryDelay s)]"
  by (cases ok; simp add: attempt_fails_def onerror_def connect_fail_timers
        handleDisconnect_timers clearTimeout_timers split: option.splits)+

lemma timers_inv_filter:
  "timers_inv s \<Longrightarrow> timers s' = filter P (timers s) \<Longrightarrow> next_handle s' = next_handle s \<Longrightarrow>
   timers_inv s'"
  by (simp add: timers_inv_def distinct_map_filter)

lemma timers_inv_clear: "timers_inv s \<Longrightarrow> timers_inv (clearTimeout h s)"
  by (cases h) (auto simp: clearTimeout_timers elim: timers_inv_filter[where P="\<lambda>t. fst t \<noteq> _"]
      simp: timers_inv_def distinct_map_filter)

lemma retry_pending_after_failure:
  assumes "timers_inv s" "retryDelay s \<le> MAX_RETRY_DELAY"
  shows "retry_pending (attempt_fails ok (connect ok s))"
proof -
  let ?s' = "attempt_fails ok (connect ok s)"
  have c: "timers_inv (clearTimeout (heartbeatTimeout s) s)"
    using assms(1) by (rule timers_inv_clear)
  have "timers_inv ?s'"
    using c unfolding timers_inv_def
    by (auto simp: failed_attempt_fields less_Suc_eq)
  moreover have "(next_handle s, Retry, retryDelay s) \<in> set (timers ?s')"
    by (simp add: failed_attempt_fields)
  ultimately show ?thesis
    unfolding retry_pending_def by (auto simp: failed_attempt_fields)
qed

lemma fire_retry_is_connect:
  assumes "retry_pending s"
  shows "\<exists>s1. fire_retry ok s = connect ok s1 \<and> timers_inv s1 \<and>
          retryDelay s1 = retryDelay s \<and> setTimeout_calls s1 = setTimeout_calls s"
proof -
  from assms obtain h d where h: "retryTimeout s = Some h" "(h, Retry, d) \<in> set (timers s)"
    and inv: "timers_inv s"
    unfolding retry_pending_def by blast
  from inv h(2) have f: "find (\<lambda>t. fst t = h) (timers s) = Some (h, Retry, d)"
    unfolding timers_inv_def by (intro find_handle) simp_all
  let ?s1 = "s\<lparr>timers := filter (\<lambda>t. fst t \<noteq> h) (timers s)\<rparr>"
  have "fire_retry ok s = connect ok ?s1"
    by (simp add: fire_retry_def h(1) fire_def f)
  moreover have "timers_inv ?s1"
    using inv by (rule timers_inv_filter) simp_all
  ultimately show ?thesis by (intro exI[of _ ?s1]) simp
qed

lemma backoff_double:
  "min (min (d * 2) MAX_RETRY_DELAY * 2 ^ j) MAX_RETRY_DELAY = min (d * 2 ^ Suc j) MAX_RETRY_DELAY"
proof (cases "d * 2 \<le> MAX_RETRY_DELAY")
  case True
  then show ?thesis by (simp add: min_def mult.assoc)
next
  case False
  define M where "M = MAX_RETRY_DELAY"
  from False have lt: "M < d * 2" by (simp add: M_def)
  have one: "(1::nat) \<le> 2 ^ j" by simp
  have a: "M \<le> M * 2 ^ j" using mult_le_mono2[OF one, of M] by simp
  have c: "d * 2 \<le> d * 2 ^ Suc j" using one by simp
  have b: "M \<le> d * 2 ^ Suc j" by (rule less_imp_le[OF less_le_trans[OF lt c]])
  from lt have "min (d * 2) M = M" by simp
  moreover from a have "min (M * 2 ^ j) M = M" by (simp add: min_absorb2)
  moreover from b have "min (d * 2 ^ Suc j) M = M" by (simp only: min_absorb2)
  ultimately show ?thesis unfolding M_def by simp
qed

lemma failing_attempts_delays:
  "retry_pending s \<Longrightarrow>
   retry_delays (failing_attempts oks s) =
     retry_delays s @ map (\<lambda>j. min (retryDelay s * 2 ^ j) MAX_RETRY_DELAY) [0..<length oks]"
proof (induction oks arbitrary: s)
  case Nil
  then show ?case by simp
next
  case (Cons ok oks)
  from fire_retry_is_connect[OF Cons.prems, of ok] obtain s1 where
    s1: "fire_retry ok s = connect ok s1" "timers_inv s1" "retryDelay s1 = retryDelay s"
        "setTimeout_calls s1 = setTimeout_calls s" by blast
  let ?s' = "attempt_fails ok (connect ok s1)"
  from Cons.prems have le: "retryDelay s \<le> MAX_RETRY_DELAY" by (simp add: retry_pending_def)
  have p: "retry_pending ?s'"
    using s1(2) le by (intro retry_pending_after_failure) (simp_all add: s1(3))
  have d: "retry_delays ?s' = retry_delays s @ [retryDelay s]"
    by (simp add: retry_delays_def failed_attempt_fields s1)
  have r: "retryDelay ?s' = min (retryDelay s * 2) MAX_RETRY_DELAY"
    by (simp add: failed_attempt_fields s1)
  have "map (\<lambda>j. min (retryDelay s * 2 ^ j) MAX_RETRY_DELAY) [0..<length (ok # oks)] =
        retryDelay s # map (\<lambda>j. min (retryDelay s * 2 ^ Suc j) MAX_RETRY_DELAY) [0..<length oks]"
    using le by (simp add: upt_conv_Cons map_Suc_upt[symmetric] del: upt_Suc)
  then show ?case
    using Cons.IH[OF p] by (simp add: s1(1) d r backoff_double del: upt_Suc power_Suc)
qed

lemma cold_connect_fails_fields:
  "retry_pending (cold_connect_fails options ok)"
  "retry_delays (cold_connect_fails options ok) = [INITIAL_RETRY_DELAY]"
  "retryDelay (cold_connect_fails options ok) = min (INITIAL_RETRY_DELAY * 2) MAX_RETRY_DELAY"
proof -
  let ?s = "sse_initial\<lparr>eventHandlers :=
            (if onDeviceStatus options then [device_status] else []) @
            (if onAlertCreated options then [alert_created] else []) @
            (if onLatencySpike options then [latency_spike] else []) @
            (if onInterfaceThreshold options then [interface_threshold] else []) @
            (if onClassificationUpdate options then [classification_update] else []),
          onConnectionChange := opt_onConnectionChange options\<rparr>"
  have c: "cold_connect_fails options ok = attempt_fails ok (connect ok ?s)"
    by (simp add: cold_connect_fails_def initSSE_def)
  have "timers_inv ?s" "retryDelay ?s \<le> MAX_RETRY_DELAY"
    by (simp_all add: timers_inv_def sse_initial_def INITIAL_RETRY_DELAY_def MAX_RETRY_DELAY_def)
  then show "retry_pending (cold_connect_fails options ok)"
    unfolding c by (rule retry_pending_after_failure)
  show "retry_delays (cold_connect_fails options ok) = [INITIAL_RETRY_DELAY]"
    unfolding c by (simp add: retry_delays_def failed_attempt_fields) (simp add: sse_initial_def)
  show "retryDelay (cold_connect_fails options ok) = min (INITIAL_RETRY_DELAY * 2) MAX_RETRY_DELAY"
    unfolding c by (simp add: failed_attempt_fields) (simp add: sse_initial_def)
qed

lemma backoff_units: "min (1000 * 2 ^ j) (30000::nat) = 1000 * min (2 ^ j) 30"
  by (simp add: min_def)

text \<open>
  C2. After a cold connect, when every attempt fails (whether the transport cannot be
  created or reports an error), the delays passed to \<open>setTimeout\<close> for the reconnects
  are 1000 ms times 1, 2, 4, 8, 16, 30, 30, ...: the \<open>j\<close>-th delay is
  \<open>1000 * min (2 ^ j) 30\<close>. An \<open>open\<close> of the transport sets the delay back to 1000 ms,
  and that is the delay of the next reconnect.
\<close>

theorem backoff_sequence:
  "retry_delays (failing_attempts oks (cold_connect_fails options ok)) =
     map (\<lambda>j. 1000 * min (2 ^ j) 30) [0..<Suc (length oks)] \<and>
   retryDelay (onopen s) = 1000 \<and>
   retry_delays (onerror (onopen s)) = retry_delays s @ [1000]"
proof (intro conjI)
  have "retry_delays (failing_attempts oks (cold_connect_fails options ok)) =
        INITIAL_RETRY_DELAY #
        map (\<lambda>j. min (min (INITIAL_RETRY_DELAY * 2) MAX_RETRY_DELAY * 2 ^ j) MAX_RETRY_DELAY)
          [0..<length oks]"
    by (simp add: failing_attempts_delays cold_connect_fails_fields)
  also have "\<dots> = map (\<lambda>j. min (INITIAL_RETRY_DELAY * 2 ^ j) MAX_RETRY_DELAY) [0..<Suc (length oks)]"
    by (simp add: upt_conv_Cons map_Suc_upt[symmetric] backoff_double del: upt_Suc power_Suc)
       (simp add: INITIAL_RETRY_DELAY_def MAX_RETRY_DELAY_def)
  also have "\<dots> = map (\<lambda>j. 1000 * min (2 ^ j) 30) [0..<Suc (length oks)]"
    by (simp only: INITIAL_RETRY_DELAY_def MAX_RETRY_DELAY_def backoff_units)
  finally show "retry_delays (failing_attempts oks (cold_connect_fails options ok)) =
     map (\<lambda>j. 1000 * min (2 ^ j) 30) [0..<Suc (length oks)]" .
  show "retryDelay (onopen s) = 1000" by (simp add: INITIAL_RETRY_DELAY_def)
  show "retry_delays (onerror (onopen s)) = retry_delays s @ [1000]"
    by (simp add: retry_delays_def onerror_def onopen_def INITIAL_RETRY_DELAY_def)
qed

theorem backoff_sequence_witness:
  "retry_delays (failing_attempts [True, True, False, True, True, True, True]
      (cold_connect_fails dashboard_options True)) =
     [1000, 2000, 4000, 8000, 16000, 30000, 30000, 30000] \<and>
   retryDelay (onopen (cold_connect_fails dashboard_options True)) = 1000"
  using backoff_sequence[of "[True, True, False, True, True, True, True]" dashboard_options True
      "cold_connect_fails dashboard_options True"]
  by (simp add: upt_conv_Cons del: upt_Suc)

lemma handleEvent_eventSource [simp]: "eventSource (handleEvent t f s) = eventSource s"
  by (simp add: handleEvent_def scheduleEventFlush_def resetHeartbeatTimeout_def Let_def
      split: frame.splits option.splits)

lemma sse_run_append: "sse_run (xs @ ys) s = sse_run ys (sse_run xs s)"
  by (simp add: sse_run_def)

lemma sse_run_Cons: "sse_run (x # xs) s = sse_run xs (sse_step x s)"
  by (simp add: sse_run_def)

lemma sse_run_Nil: "sse_run [] s = s"
  by (simp add: sse_run_def)

lemma run_fresh_ids:
  "eventSource s = Some Open_transport \<Longrightarrow> distinct ids \<Longrightarrow> [] \<notin> set ids \<Longrightarrow>
   set ids \<inter> set (lastEventIds s) = {} \<Longrightarrow> length (lastEventIds s) + length ids \<le> 100 \<Longrightarrow>
   lastEventIds (sse_run (id_events t ids) s) = lastEventIds s @ ids \<and>
   eventBuffer (sse_run (id_events t ids) s) =
     eventBuffer s @ map (\<lambda>i. (t, \<lparr>event_id = Some i, event_payload = None\<rparr>)) ids \<and>
   eventSource (sse_run (id_events t ids) s) = Some Open_transport \<and>
   handler_calls (sse_run (id_events t ids) s) = handler_calls s \<and>
   eventHandlers (sse_run (id_events t ids) s) = eventHandlers s"
proof (induction ids arbitrary: s)
  case Nil
  then show ?case by (simp add: id_events_def sse_run_Nil)
next
  case (Cons i ids)
  let ?s1 = "handleEvent t (Parsed \<lparr>event_id = Some i, event_payload = None\<rparr>) s"
  have step: "sse_run (id_events t (i # ids)) s = sse_run (id_events t ids) ?s1"
    using Cons.prems(1) by (simp add: id_events_def sse_run_Cons sse_step_def)
  from Cons.prems have i: "i \<noteq> []" "i \<notin> set (lastEventIds s)" "length (lastEventIds s) < 100"
    by auto
  have w: "lastEventIds ?s1 = lastEventIds s @ [i]"
    using i by (simp add: handleEvent_window truthy_id_def track_id_new)
  have b: "eventBuffer ?s1 = eventBuffer s @ [(t, \<lparr>event_id = Some i, event_payload = None\<rparr>)]"
    using i by (simp add: handleEvent_buffer truthy_id_def)
  have "lastEventIds (sse_run (id_events t ids) ?s1) = lastEventIds ?s1 @ ids \<and>
   eventBuffer (sse_run (id_events t ids) ?s1) =
     eventBuffer ?s1 @ map (\<lambda>i. (t, \<lparr>event_id = Some i, event_payload = None\<rparr>)) ids \<and>
   eventSource (sse_run (id_events t ids) ?s1) = Some Open_transport \<and>
   handler_calls (sse_run (id_events t ids) ?s1) = handler_calls ?s1 \<and>
   eventHandlers (sse_run (id_events t ids) ?s1) = eventHandlers ?s1"
    using Cons.prems by (intro Cons.IH) (auto simp: w)
  then show ?case by (simp add: step w b)
qed

lemma sample_id_inj [simp]: "sample_id m = sample_id n \<longleftrightarrow> m = n"
  by (simp add: sample_id_def replicate_eq_replicate)

lemma sample_id_nonempty [simp]: "sample_id n \<noteq> []"
  by (simp add: sample_id_def)

lemma sample_ids_distinct: "distinct (map sample_id [m..<n])"
  by (simp add: distinct_map inj_on_def)

lemma sample_ids_nonempty: "[] \<notin> set (map sample_id ns)"
  by (auto simp: sample_id_def)

lemma initSSE_fields:
  "eventSource (initSSE options True sse_initial) = Some Open_transport"
  "lastEventIds (initSSE options True sse_initial) = []"
  "eventBuffer (initSSE options True sse_initial) = []"
  "handler_calls (initSSE options True sse_initial) = []"
  by (simp_all add: initSSE_def) (simp_all add: connect_def Let_def sse_initial_def)

lemma full_window:
  "lastEventIds (sse_run (id_events t (map sample_id [0..<100])) (initSSE options True sse_initial))
     = map sample_id [0..<100]"
  using run_fresh_ids[OF initSSE_fields(1) sample_ids_distinct sample_ids_nonempty, of 0 100 options t]
  by (simp add: initSSE_fields del: upt_Suc)

text \<open>
  C9. In every run of the client the dedup window holds at most 100 ids. When the window
  of a reachable state is full and an event with a new id arrives, the oldest id leaves
  and the new one is appended (insertion order, first in first out); the id that left is
  not in the window any more, and an event carrying it again is appended to the buffer
  and its id enters the window again.
\<close>

theorem dedup_window_bounded_fifo:
  "length (lastEventIds (sse_run ops (initSSE options ok sse_initial))) \<le> 100 \<and>
   (\<forall>s i p t. s = sse_run ops (initSSE options ok sse_initial) \<and>
        length (lastEventIds s) = 100 \<and> i \<noteq> [] \<and> i \<notin> set (lastEventIds s) \<longrightarrow>
      (let s' = handleEvent t (Parsed \<lparr>event_id = Some i, event_payload = p\<rparr>) s;
           oldest = hd (lastEventIds s)
       in lastEventIds s' = tl (lastEventIds s) @ [i] \<and>
          oldest \<notin> set (lastEventIds s') \<and>
          (\<forall>t' p'. eventBuffer (handleEvent t' (Parsed \<lparr>event_id = Some oldest, event_payload = p'\<rparr>) s') =
                     eventBuffer s' @ [(t', \<lparr>event_id = Some oldest, event_payload = p'\<rparr>)] \<and>
                   oldest \<in> set (lastEventIds
                     (handleEvent t' (Parsed \<lparr>event_id = Some oldest, event_payload = p'\<rparr>) s')))))"
proof (intro conjI allI impI)
  have inv: "window_inv (sse_run ops (initSSE options ok sse_initial))"
    by (rule window_inv_run[OF window_inv_initSSE])
  then show "length (lastEventIds (sse_run ops (initSSE options ok sse_initial))) \<le> 100"
    by (simp add: window_inv_def)
  fix s i p t
  assume a: "s = sse_run ops (initSSE options ok sse_initial) \<and>
        length (lastEventIds s) = 100 \<and> i \<noteq> [] \<and> i \<notin> set (lastEventIds s)"
  define w where "w = lastEventIds s"
  from a have s: "s = sse_run ops (initSSE options ok sse_initial)"
    and "length w = 100" "i \<notin> set w" "i \<noteq> []"
    unfolding w_def by blast+
  moreover from inv have "distinct w" "[] \<notin> set w"
    unfolding w_def s by (simp_all add: window_inv_def)
  ultimately have w: "distinct w" "length w = 100" "[] \<notin> set w" "i \<notin> set w" "i \<noteq> []"
    by blast+
  then obtain a0 rest where wc: "w = a0 # rest" by (cases w) auto
  define s' where "s' = handleEvent t (Parsed \<lparr>event_id = Some i, event_payload = p\<rparr>) s"
  have w': "lastEventIds s' = rest @ [i]"
    using w wc track_id_full[of i w]
    by (simp add: s'_def handleEvent_window truthy_id_def w_def[symmetric])
  have old: "a0 \<notin> set (rest @ [i])" "a0 \<noteq> []" using w wc by auto
  have len: "length (rest @ [i]) = 100" using w wc by simp
  have buf: "eventBuffer (handleEvent t' (Parsed \<lparr>event_id = Some a0, event_payload = p'\<rparr>) s') =
        eventBuffer s' @ [(t', \<lparr>event_id = Some a0, event_payload = p'\<rparr>)]" for t' p'
    using old by (simp add: handleEvent_buffer w' truthy_id_def)
  have again: "a0 \<in> set (lastEventIds (handleEvent t' (Parsed \<lparr>event_id = Some a0, event_payload = p'\<rparr>) s'))"
    for t' p'
  proof -
    have d: "distinct (rest @ [i])" using w wc by auto
    have "track_id a0 (rest @ [i]) = tl (rest @ [i]) @ [a0]"
      using old(1) d len by (rule track_id_full)
    then show ?thesis using old by (simp add: handleEvent_window w' truthy_id_def)
  qed
  show "let s' = handleEvent t (Parsed \<lparr>event_id = Some i, event_payload = p\<rparr>) s;
           oldest = hd (lastEventIds s)
       in lastEventIds s' = tl (lastEventIds s) @ [i] \<and>
          oldest \<notin> set (lastEventIds s') \<and>
          (\<forall>t' p'. eventBuffer (handleEvent t' (Parsed \<lparr>event_id = Some oldest, event_payload = p'\<rparr>) s') =
                     eventBuffer s' @ [(t', \<lparr>event_id = Some oldest, event_payload = p'\<rparr>)] \<and>
                   oldest \<in> set (lastEventIds
                     (handleEvent t' (Parsed \<lparr>event_id = Some oldest, event_payload = p'\<rparr>) s')))"
    unfolding Let_def s'_def[symmetric] w_def[symmetric]
    using w' old buf again by (simp add: wc)
qed

theorem dedup_window_bounded_fifo_witness:
  "length (lastEventIds (sse_run (id_events device_status (map sample_id [0..<100]))
      (initSSE dashboard_options True sse_initial))) = 100 \<and>
   (let s = sse_run (id_events device_status (map sample_id [0..<100]))
              (initSSE dashboard_options True sse_initial);
        s' = handleEvent device_status (Parsed \<lparr>event_id = Some (sample_id 100), event_payload = None\<rparr>) s
    in lastEventIds s' = map sample_id [1..<100] @ [sample_id 100] \<and>
       sample_id 0 \<notin> set (lastEventIds s') \<and>
       eventBuffer (handleEvent alert_created (Parsed \<lparr>event_id = Some (sample_id 0), event_payload = None\<rparr>) s') =
         eventBuffer s' @ [(alert_created, \<lparr>event_id = Some (sample_id 0), event_payload = None\<rparr>)])"
proof -
  let ?ops = "id_events device_status (map sample_id [0..<100])"
  let ?s = "sse_run ?ops (initSSE dashboard_options True sse_initial)"
  have w: "lastEventIds ?s = map sample_id [0..<100]" by (rule full_window)
  have hd: "hd (map sample_id [0..<100]) = sample_id 0"
    by (simp add: upt_conv_Cons del: upt_Suc)
  have tl: "tl (map sample_id [0..<100]) = map sample_id [1..<100]"
    by (simp add: upt_conv_Cons[of 0 100] del: upt_Suc)
  have hyp: "?s = ?s \<and> length (lastEventIds ?s) = 100 \<and> sample_id 100 \<noteq> [] \<and>
      sample_id 100 \<notin> set (lastEventIds ?s)"
    by (auto simp: w sample_id_def simp del: upt_Suc)
  from dedup_window_bounded_fifo[of ?ops dashboard_options True] hyp
  have "let s' = handleEvent device_status (Parsed \<lparr>event_id = Some (sample_id 100), event_payload = None\<rparr>) ?s;
           oldest = hd (lastEventIds ?s)
       in lastEventIds s' = tl (lastEventIds ?s) @ [sample_id 100] \<and>
          oldest \<notin> set (lastEventIds s') \<and>
          (\<forall>t' p'. eventBuffer (handleEvent t' (Parsed \<lparr>event_id = Some oldest, event_payload = p'\<rparr>) s') =
                     eventBuffer s' @ [(t', \<lparr>event_id = Some oldest, event_payload = p'\<rparr>)] \<and>
                   oldest \<in> set (lastEventIds
                     (handleEvent t' (Parsed \<lparr>event_id = Some oldest, event_payload = p'\<rparr>) s')))"
    by blast
  then show ?thesis
    unfolding Let_def w hd tl by (auto simp del: upt_Suc)
qed

subsection \<open>Disconnecting\<close>

lemma one_event_received_fields:
  "lastEventIds one_event_received = [''evt-1'']"
  "eventBuffer one_event_received = [(device_status, \<lparr>event_id = Some ''evt-1'', event_payload = None\<rparr>)]"
proof -
  let ?s0 = "initSSE dashboard_options True sse_initial"
  have o: "eventSource (onopen ?s0) = Some Open_transport"
    by (simp add: onopen_def initSSE_fields)
  have r: "one_event_received =
      handleEvent device_status (Parsed \<lparr>event_id = Some ''evt-1'', event_payload = None\<rparr>) (onopen ?s0)"
    by (simp add: one_event_received_def sse_run_Cons sse_run_Nil sse_step_def initSSE_fields o)
  show "lastEventIds one_event_received = [''evt-1'']"
    by (simp add: r handleEvent_window truthy_id_def initSSE_fields track_id_new)
  show "eventBuffer one_event_received = [(device_status, \<lparr>event_id = Some ''evt-1'', event_payload = None\<rparr>)]"
    by (simp add: r handleEvent_buffer truthy_id_def initSSE_fields)
qed



subsection \<open>Deduplication\<close>

lemma flatten_group_push:
  "length (filter P (flatten_groups (group_push t d g))) =
     length (filter P (flatten_groups g)) + (if P (t, d) then 1 else 0)"
  by (induction g) (auto simp: flatten_groups_def)

lemma flatten_eventsByType_gen:
  "length (filter P (flatten_groups (foldl (\<lambda>acc e. group_push (fst e) (snd e) acc) g buf))) =
     length (filter P (flatten_groups g)) + length (filter P buf)"
  by (induction buf arbitrary: g) (auto simp: flatten_group_push)

lemma dispatch_filter:
  "dispatch hs groups = filter (\<lambda>e. fst e \<in> set hs) (flatten_groups groups)"
  by (induction groups) (auto simp: dispatch_def flatten_groups_def filter_map comp_def)

lemma dispatch_count:
  "length (filter P (dispatch hs (eventsByType buf))) =
     length (filter (\<lambda>e. fst e \<in> set hs \<and> P e) buf)"
  using flatten_eventsByType_gen[of "\<lambda>e. fst e \<in> set hs \<and> P e" "[]" buf]
  by (simp add: dispatch_filter eventsByType_def flatten_groups_def)

lemma filter_conj_length: "length (filter (\<lambda>e. Q e \<and> P e) xs) \<le> length (filter P xs)"
  by (induction xs) auto

lemma flush_calls:
  "cnt i (handler_calls (flushEventBuffer s)) \<le> cnt i (handler_calls s) + cnt i (eventBuffer s)"
  by (simp add: flushEventBuffer_def cnt_def dispatch_count filter_conj_length)

lemma dedup_inv_cong:
  "dedup_inv A s \<Longrightarrow> lastEventIds s' = lastEventIds s \<Longrightarrow> eventBuffer s' = eventBuffer s \<Longrightarrow>
   handler_calls s' = handler_calls s \<Longrightarrow> dedup_inv A s'"
  by (simp add: dedup_inv_def)

lemma dedup_inv_flush: "dedup_inv A s \<Longrightarrow> dedup_inv A (flushEventBuffer s)"
proof -
  assume a: "dedup_inv A s"
  have m: "cnt i (eventBuffer (flushEventBuffer s)) + cnt i (handler_calls (flushEventBuffer s))
        \<le> cnt i (eventBuffer s) + cnt i (handler_calls s)" for i
    using flush_calls[of i s] by (simp add: cnt_def)
  have "cnt i (eventBuffer (flushEventBuffer s)) + cnt i (handler_calls (flushEventBuffer s))
        \<le> (if i \<in> set (lastEventIds (flushEventBuffer s)) then 1 else 0)" if "i \<noteq> []" for i
  proof -
    from a that have "cnt i (eventBuffer s) + cnt i (handler_calls s)
        \<le> (if i \<in> set (lastEventIds s) then 1 else 0)"
      by (simp add: dedup_inv_def)
    then show ?thesis using order_trans[OF m[of i]] by simp
  qed
  with a show ?thesis
    unfolding dedup_inv_def by (simp only: flushEventBuffer_simps) blast
qed

lemma window_not_full:
  assumes "distinct w" "set w \<subseteq> A" "finite A" "card A \<le> 100" "x \<in> A" "x \<notin> set w"
  shows "length w < 100"
proof -
  have "set w \<subseteq> A - {x}" using assms by auto
  then have "card (set w) \<le> card (A - {x})" using assms(3) by (intro card_mono) auto
  also have "\<dots> < card A" using assms(3,5) by (intro card_Diff1_less)
  finally show ?thesis using assms(1,4) by (simp add: distinct_card)
qed

lemma dedup_inv_handleEvent:
  assumes inv: "dedup_inv A s" and A: "finite A" "card A \<le> 100"
    and ids: "set (op_id (Ev_event t f)) \<subseteq> A"
  shows "dedup_inv A (handleEvent t f s)"
proof (cases f)
  case Unparseable
  from inv show ?thesis
    by (rule dedup_inv_cong) (simp_all add: Unparseable handleEvent_window handleEvent_buffer)
next
  case (Parsed d)
  show ?thesis
  proof (cases "truthy_id (event_id d)")
    case False
    then have no: "event_id d \<noteq> Some i" if "i \<noteq> []" for i
      using that by (auto simp: truthy_id_def split: option.splits)
    have w: "lastEventIds (handleEvent t f s) = lastEventIds s"
      using False by (simp add: Parsed handleEvent_window)
    have b: "eventBuffer (handleEvent t f s) = eventBuffer s @ [(t, d)]"
      using False by (simp add: Parsed handleEvent_buffer)
    have "cnt i (eventBuffer s @ [(t, d)]) = cnt i (eventBuffer s)" if "i \<noteq> []" for i
      using no[OF that] by (simp add: cnt_def)
    with inv show ?thesis
      unfolding dedup_inv_def w b by simp
  next
    case True
    then obtain i0 where i0: "event_id d = Some i0" "i0 \<noteq> []"
      by (auto simp: truthy_id_def split: option.splits)
    show ?thesis
    proof (cases "i0 \<in> set (lastEventIds s)")
      case True
      from inv show ?thesis
        by (rule dedup_inv_cong)
           (simp_all add: Parsed handleEvent_window handleEvent_buffer i0 True truthy_id_def)
    next
      case False
      from ids have in_A: "i0 \<in> A" by (simp add: Parsed i0)
      from inv have d: "distinct (lastEventIds s)" and sub: "set (lastEventIds s) \<subseteq> A"
        by (simp_all add: dedup_inv_def)
      have "length (lastEventIds s) < 100"
        using d sub A in_A False by (rule window_not_full)
      then have w: "lastEventIds (handleEvent t f s) = lastEventIds s @ [i0]"
        using False by (simp add: Parsed handleEvent_window i0 truthy_id_def track_id_new)
      have b: "eventBuffer (handleEvent t f s) = eventBuffer s @ [(t, d)]"
        using False by (simp add: Parsed handleEvent_buffer i0 truthy_id_def)
      have c: "cnt i (eventBuffer s @ [(t, d)]) = cnt i (eventBuffer s) + (if i = i0 then 1 else 0)" for i
        by (auto simp: cnt_def i0)
      from inv False i0 have z: "cnt i0 (eventBuffer s) + cnt i0 (handler_calls s) = 0"
        unfolding dedup_inv_def by (metis (full_types) le_zero_eq)
      from inv have old: "i \<noteq> [] \<Longrightarrow> cnt i (eventBuffer s) + cnt i (handler_calls s)
          \<le> (if i \<in> set (lastEventIds s) then 1 else 0)" for i
        by (simp add: dedup_inv_def)
      have new: "cnt i (eventBuffer s @ [(t, d)]) + cnt i (handler_calls s)
          \<le> (if i \<in> set (lastEventIds s @ [i0]) then 1 else 0)" if "i \<noteq> []" for i
      proof (cases "i = i0")
        case True
        with z show ?thesis by (simp add: c)
      next
        case False
        with old[OF that] show ?thesis by (simp add: c)
      qed
      show ?thesis
        unfolding dedup_inv_def w b
        using d sub in_A False new by simp
    qed
  qed
qed

lemma dedup_inv_fire: "dedup_inv A s \<Longrightarrow> dedup_inv A (fire h ok s)"
proof -
  assume a: "dedup_inv A s"
  have b: "dedup_inv A (s\<lparr>timers := ts\<rparr>)" for ts
    using a by (rule dedup_inv_cong) simp_all
  show ?thesis
  proof (cases "find (\<lambda>t. fst t = h) (timers s)")
    case None
    with a show ?thesis by (simp add: fire_def)
  next
    case (Some t)
    show ?thesis
    proof (cases "fst (snd t)")
      case Retry
      with Some show ?thesis
        by (simp add: fire_def) (rule dedup_inv_cong[OF b], simp_all)
    next
      case Heartbeat
      with Some show ?thesis
        by (simp add: fire_def) (rule dedup_inv_cong[OF b], simp_all)
    next
      case Debounce
      with Some dedup_inv_flush[OF b] show ?thesis by (simp add: fire_def)
    qed
  qed
qed

lemma dedup_inv_step:
  assumes "dedup_inv A s" "finite A" "card A \<le> 100" "set (op_id op) \<subseteq> A"
  shows "dedup_inv A (sse_step op s)"
proof (cases op)
  case (Ev_event t f)
  with assms show ?thesis by (simp add: sse_step_def dedup_inv_handleEvent del: op_id.simps)
next
  case (Ev_timer h ok)
  with assms(1) show ?thesis by (simp add: sse_step_def dedup_inv_fire)
next
  case Ev_open
  have "dedup_inv A (onopen s)" using assms(1) by (rule dedup_inv_cong) simp_all
  with assms(1) show ?thesis by (simp add: sse_step_def Ev_open)
next
  case Ev_error
  have "dedup_inv A (onerror s)" using assms(1) by (rule dedup_inv_cong) (simp_all add: onerror_def)
  with assms(1) show ?thesis by (simp add: sse_step_def Ev_error)
next
  case Ev_connected
  have "dedup_inv A (on_connected s)"
    using assms(1) by (rule dedup_inv_cong) (simp_all add: on_connected_def)
  with assms(1) show ?thesis by (simp add: sse_step_def Ev_connected)
next
  case Call_disconnect
  have "dedup_inv A (disconnect s)" using assms(1) by (rule dedup_inv_cong) simp_all
  then show ?thesis by (simp add: sse_step_def Call_disconnect)
next
  case (Call_reconnect ok)
  have "dedup_inv A (reconnect ok s)" using assms(1) by (rule dedup_inv_cong) simp_all
  then show ?thesis by (simp add: sse_step_def Call_reconnect)
qed

lemma dedup_inv_run:
  "dedup_inv A s \<Longrightarrow> finite A \<Longrightarrow> card A \<le> 100 \<Longrightarrow> set (op_ids ops) \<subseteq> A \<Longrightarrow>
   dedup_inv A (sse_run ops s)"
proof (induction ops arbitrary: s)
  case Nil
  then show ?case by (simp add: sse_run_Nil)
next
  case (Cons op ops)
  from Cons.prems have "dedup_inv A (sse_step op s)"
    by (intro dedup_inv_step) (simp_all add: op_ids_def)
  with Cons.prems show ?case
    by (simp add: sse_run_Cons Cons.IH op_ids_def)
qed

lemma dedup_inv_initSSE: "dedup_inv A (initSSE options ok sse_initial)"
  by (simp add: dedup_inv_def initSSE_def cnt_def) (simp add: sse_initial_def)

lemma track_id_member: "x \<notin> set ids \<Longrightarrow> x \<in> set (track_id x ids)"
  by (cases ids) (auto simp: track_id_def set_add_def Let_def)



lemma miss_buffer:
  "i \<noteq> [] \<Longrightarrow> i \<notin> set (lastEventIds s) \<Longrightarrow>
   eventBuffer (handleEvent t (Parsed \<lparr>event_id = Some i, event_payload = p\<rparr>) s) =
     eventBuffer s @ [(t, \<lparr>event_id = Some i, event_payload = p\<rparr>)]"
  by (simp add: handleEvent_buffer truthy_id_def)

lemma fired_after_flush:
  "fired_for i (flushEventBuffer s) =
     cnt i (handler_calls s) +
     length (filter (\<lambda>e. fst e \<in> set (eventHandlers s) \<and> event_id (snd e) = Some i) (eventBuffer s))"
  by (simp add: fired_for_def flushEventBuffer_def cnt_def dispatch_count)

lemma id_events_step:
  "eventSource s = Some Open_transport \<Longrightarrow>
   sse_run (id_events t (i # ids)) s =
     sse_run (id_events t ids) (handleEvent t (Parsed \<lparr>event_id = Some i, event_payload = None\<rparr>) s)"
  by (simp add: id_events_def sse_run_Cons sse_step_def)

lemma id_events_Nil: "sse_run (id_events t []) s = s"
  by (simp add: id_events_def sse_run_Nil)

lemma id_events_append: "id_events t (xs @ ys) = id_events t xs @ id_events t ys"
  by (simp add: id_events_def)

lemma count_first_sample:
  "length (filter (\<lambda>n. n = 0) [0..<100]) = 1"
proof -
  have "filter (\<lambda>n. n = 0) [Suc 0..<100] = []" by (simp add: filter_empty_conv)
  then show ?thesis by (simp add: upt_conv_Cons[of 0 100] del: upt_Suc)
qed



section \<open>Properties of the state store\<close>

subsection \<open>Reading and writing slices\<close>

lemma map_of_obj_set: "map_of (obj_set k v kvs) k' = (if k' = k then Some v else map_of kvs k')"
  by (induction kvs) auto

lemma keys_obj_set: "fst ` set (obj_set k v kvs) = insert k (fst ` set kvs)"
  unfolding dom_map_of_conv_image_fst[symmetric] by (auto simp: map_of_obj_set dom_def)

lemma slice_set_slice [simp]: "slice (set_slice k v w) k' = (if k' = k then v else slice w k')"
  by (simp add: slice_def set_slice_def map_of_obj_set or_null_def)

lemma set_slice_fields [simp]:
  "listeners (set_slice k v w) = listeners w"
  "localStorage (set_slice k v w) = localStorage w"
  "setItem_throws (set_slice k v w) = setItem_throws w"
  "clock (set_slice k v w) = clock w"
  "console (set_slice k v w) = console w"
  "listener_calls (set_slice k v w) = listener_calls w"
  by (simp_all add: set_slice_def)

lemma console_add_fields [simp]:
  "dashboardState (console_add l m w) = dashboardState w"
  "listeners (console_add l m w) = listeners w"
  "localStorage (console_add l m w) = localStorage w"
  "setItem_throws (console_add l m w) = setItem_throws w"
  "clock (console_add l m w) = clock w"
  "console (console_add l m w) = console w @ [(l, m)]"
  "listener_calls (console_add l m w) = listener_calls w"
  "slice (console_add l m w) k = slice w k"
  by (simp_all add: console_add_def slice_def)

lemma notifyListeners_fields [simp]:
  "dashboardState (notifyListeners w) = dashboardState w"
  "listeners (notifyListeners w) = listeners w"
  "localStorage (notifyListeners w) = localStorage w"
  "setItem_throws (notifyListeners w) = setItem_throws w"
  "clock (notifyListeners w) = clock w"
  "console (notifyListeners w) = console w"
  "listener_calls (notifyListeners w) = listener_calls w @ listeners w"
  "slice (notifyListeners w) k = slice w k"
  by (simp_all add: notifyListeners_def slice_def)

lemma saveToCache_returns:
  "saveToCache w =
     Returns (if setItem_throws w then console_add Console_warn ''Cache save failed'' w
              else w\<lparr>localStorage := Some (Json_text (json_roundtrip (cacheData w)))\<rparr>)"
  by (simp add: saveToCache_def localStorage_setItem_def)

lemma cacheData_cong:
  "dashboardState w' = dashboardState w \<Longrightarrow> clock w' = clock w \<Longrightarrow> cacheData w' = cacheData w"
  by (simp add: cacheData_def slice_def)

lemma updateState_own_key:
  assumes "key \<in> set (map fst (dashboardState w))"
  shows "updateState key data w =
           saveToCache (notifyListeners (set_slice ''lastUpdated'' (JDate (clock w)) (set_slice key data w)))"
  using assms by (simp add: updateState_def key_in_dashboardState_def inherited_accessor_def Let_def)

lemma updateState_unknown_key:
  assumes "key \<notin> set (map fst (dashboardState w))" "key \<notin> set Object_prototype_names"
  shows "updateState key data w =
           Returns (console_add Console_warn (''Attempted to update invalid state key: '' @ key) w)"
  using assms by (simp add: updateState_def key_in_dashboardState_def)


lemma json_roundtrip_cacheData:
  "json_roundtrip (cacheData w) =
     JObj [(''timestamp'', JNum (of_int (clock w))),
           (''data'', JObj [(''summary'', json_roundtrip (slice w ''summary'')),
                            (''trends'', json_roundtrip (slice w ''trends'')),
                            (''topProblems'', json_roundtrip (slice w ''topProblems'')),
                            (''inventory'', json_roundtrip (slice w ''inventory'')),
                            (''realtimeInterfaces'', json_roundtrip (slice w ''realtimeInterfaces'')),
                            (''networkIOTrend'', json_roundtrip (slice w ''networkIOTrend''))])]"
  by (simp add: cacheData_def)

lemma slice_cong: "dashboardState w' = dashboardState w \<Longrightarrow> slice w' k = slice w k"
  by (simp add: slice_def)

lemma merge_keeps_storage:
  "mergeRealtimeUpdate eventType payload w = Returns w' \<or>
   mergeRealtimeUpdate eventType payload w = Throws e w' \<Longrightarrow>
   localStorage w' = localStorage w"
  unfolding mergeRealtimeUpdate_def Let_def
  by (auto split: jsval.splits res.splits if_splits)



lemmas store_eval =
  store_initial_def initial_dashboardState_def set_slice_def slice_def or_null_def
  console_add_def notifyListeners_def subscribe_def Let_def

lemma slice_store_initial:
  "slice (store_initial p f n) ''summary'' = JNull"
  "slice (store_initial p f n) ''trends'' = JNull"
  "slice (store_initial p f n) ''topProblems'' = JNull"
  "slice (store_initial p f n) ''inventory'' = JNull"
  "slice (store_initial p f n) ''realtimeInterfaces'' = JNull"
  "slice (store_initial p f n) ''networkIOTrend'' = JNull"
  "slice (store_initial p f n) ''realtimeEvents'' = JArr []"
  "slice (store_initial p f n) ''lastUpdated'' = JNull"
  by (simp_all add: store_eval)

lemma store_initial_fields [simp]:
  "localStorage (store_initial p f n) = p"
  "setItem_throws (store_initial p f n) = f"
  "clock (store_initial p f n) = n"
  "console (store_initial p f n) = []"
  "listeners (store_initial p f n) = []"
  "listener_calls (store_initial p f n) = []"
  "dashboardState (store_initial p f n) = initial_dashboardState"
  by (simp_all add: store_initial_def)


lemma Math_round_of_int: "Math_round (of_int n) = of_int n"
proof -
  have "\<lfloor>(of_int n :: rat) + 1 / 2\<rfloor> = n" by (rule floor_unique) simp_all
  then show ?thesis by (simp add: Math_round_def)
qed

lemma Math_round_numeral [simp]: "Math_round (numeral k) = numeral k"
  using Math_round_of_int[of "numeral k"] by simp


text \<open>
  C8. \<open>updateState\<close> tests the key with \<open>key in dashboardState\<close>, which also holds for the
  names that the state object inherits from \<open>Object.prototype\<close>. For the key \<open>toString\<close>,
  which is none of the slices, the call logs no warning: it adds the property, stamps
  \<open>lastUpdated\<close>, calls the subscriber and writes the snapshot.
\<close>

theorem updateState_inherited_key_not_rejected:
  "updateState ''toString'' (JNum 1) (subscribe 7 (store_initial None False 1000)) =
   Returns
     \<lparr>dashboardState =
        [(''summary'', JNull), (''trends'', JNull), (''topProblems'', JNull),
         (''inventory'', JNull), (''alerts'', JNull), (''lastUpdated'', JDate 1000),
         (''isLoading'', JBool False), (''error'', JNull),
         (''connectionStatus'', JStr ''disconnected''), (''lastEventId'', JNull),
         (''realtimeEvents'', JArr []), (''realtimeInterfaces'', JNull),
         (''networkIOTrend'', JNull), (''toString'', JNum 1)],
      listeners = [7],
      localStorage =
        Some (Json_text (JObj
          [(''timestamp'', JNum 1000),
           (''data'', JObj [(''summary'', JNull), (''trends'', JNull), (''topProblems'', JNull),
                            (''inventory'', JNull), (''realtimeInterfaces'', JNull),
                            (''networkIOTrend'', JNull)])])),
      setItem_throws = False, clock = 1000, console = [], listener_calls = [7]\<rparr>"
  by (simp add: updateState_def key_in_dashboardState_def Object_prototype_names_def
      inherited_accessor_def saveToCache_def localStorage_setItem_def cacheData_def store_eval)


subsection \<open>The device-status reducer\<close>

lemma reduce_critical_example:
  "reduce_device_status (JObj [(''new_state'', JStr ''CRITICAL'')])
     (JObj [(''online'', JNum 10), (''offline'', JNum 0), (''total'', JNum 10)]) =
   Ok (JObj [(''online'', JNum 9), (''offline'', JNum 1), (''total'', JNum 10),
             (''online_percent'', JNum 90), (''up_percent'', JNum 90)])"
  by (simp add: reduce_device_status_def device_counters_def incr_field_def decr_field_def
      then_res_def online_percent_of_def coalesce_def nullish_def store_percent_def Let_def)

lemma merge_device_status:
  assumes ev: "slice w ''realtimeEvents'' = JArr events"
    and sm: "slice w ''summary'' = JObj skvs"
    and dv: "map_of skvs ''devices'' = Some devices" "truthy devices"
    and rd: "reduce_device_status payload devices = Ok devices'"
  shows "\<exists>w'. mergeRealtimeUpdate ''device_status'' payload w = Returns w' \<and>
              slice w' ''summary'' = JObj (obj_set ''devices'' devices' skvs)"
proof -
  have r: "reduce_summary ''device_status'' payload (JObj skvs) =
             Ok (JObj (obj_set ''devices'' devices' skvs))"
    using dv rd by (simp add: reduce_summary_def reduce_member_def then_res_def)
  show ?thesis
    using ev sm r by (simp add: mergeRealtimeUpdate_def Let_def)
qed





subsection \<open>Loading the snapshot\<close>

lemma slice_hydrate:
  "slice (hydrate data k' w) k =
     (if k = k' \<and> truthy_opt (get_prop data k') then or_null (get_prop data k') else slice w k)"
  by (simp add: hydrate_def truthy_opt_def or_null_def split: option.splits)

lemma hydrate_all:
  "slice (hydrate d ''networkIOTrend'' (hydrate d ''realtimeInterfaces''
     (hydrate d ''inventory'' (hydrate d ''topProblems'' (hydrate d ''trends''
       (hydrate d ''summary'' w)))))) k =
   (if k \<in> {''summary'', ''trends'', ''topProblems'', ''inventory'',
             ''realtimeInterfaces'', ''networkIOTrend''} \<and> truthy_opt (get_prop d k)
    then or_null (get_prop d k) else slice w k)"
  by (auto simp: slice_hydrate)


lemma hydrate_fields [simp]:
  "localStorage (hydrate data k w) = localStorage w"
  "clock (hydrate data k w) = clock w"
  "console (hydrate data k w) = console w"
  "listeners (hydrate data k w) = listeners w"
  "listener_calls (hydrate data k w) = listener_calls w"
  "setItem_throws (hydrate data k w) = setItem_throws w"
  by (simp_all add: hydrate_def split: option.splits)

lemma trunc_to_zero_of_int [simp]: "trunc_to_zero (of_int t) = t"
  by (simp add: trunc_to_zero_def)

lemma loadFromCache_false_keeps_state:
  "loadFromCache w = Returns (False, w') \<Longrightarrow> dashboardState w' = dashboardState w"
  unfolding loadFromCache_def Let_def
  by (auto split: option.splits stored.splits if_splits)

text \<open>
  C5. With a persisted snapshot whose write time is at most seven days before the
  clock, \<open>loadFromCache\<close> returns \<open>true\<close>; \<open>lastUpdated\<close> is then the \<open>Date\<close> of the write
  time, each of the six cacheable slices that the snapshot holds with a truthy value is
  that value, and every other slice is as before. With no snapshot, or one written more
  than seven days before, it returns \<open>false\<close> and the store is as before; with a text
  that \<open>JSON.parse\<close> rejects, the empty text or the text \<open>null\<close> it returns \<open>false\<close>; and
  whenever it returns \<open>false\<close> the state object is as before.
\<close>

theorem loadFromCache_hydrates_recent_snapshot:
  "(localStorage w = Some (Json_text (JObj [(''timestamp'', JNum (of_int t)), (''data'', JObj kvs)])) \<and>
    \<bar>t\<bar> \<le> 8640000000000000 \<and> clock w - t \<le> 1000 * 60 * 60 * 24 * 7 \<longrightarrow>
      (\<exists>w'. loadFromCache w = Returns (True, w') \<and>
            slice w' ''lastUpdated'' = JDate t \<and>
            (\<forall>k. k \<noteq> ''lastUpdated'' \<longrightarrow>
               slice w' k =
                 (if k \<in> {''summary'', ''trends'', ''topProblems'', ''inventory'',
                          ''realtimeInterfaces'', ''networkIOTrend''} \<and> truthy_opt (map_of kvs k)
                  then or_null (map_of kvs k) else slice w k)))) \<and>
   (localStorage w = None \<longrightarrow> loadFromCache w = Returns (False, w)) \<and>
   (localStorage w = Some (Json_text (JObj [(''timestamp'', JNum (of_int t)), (''data'', JObj kvs)])) \<and>
    clock w - t > 1000 * 60 * 60 * 24 * 7 \<longrightarrow> loadFromCache w = Returns (False, w)) \<and>
   (localStorage w = Some Garbled_text \<or> localStorage w = Some Empty_text \<or>
    localStorage w = Some (Json_text JNull) \<longrightarrow>
      (\<exists>w'. loadFromCache w = Returns (False, w') \<and> dashboardState w' = dashboardState w)) \<and>
   (\<forall>w'. loadFromCache w = Returns (False, w') \<longrightarrow> dashboardState w' = dashboardState w)"
proof (intro conjI impI allI)
  assume a: "localStorage w = Some (Json_text (JObj [(''timestamp'', JNum (of_int t)), (''data'', JObj kvs)])) \<and>
    \<bar>t\<bar> \<le> 8640000000000000 \<and> clock w - t \<le> 1000 * 60 * 60 * 24 * 7"
  then have age: "\<not> (of_int (clock w) - (of_int t :: rat) > CACHE_MAX_AGE_MS)"
  proof -
    from a have "clock w - t \<le> 604800000" by simp
    then have "(of_int (clock w - t) :: rat) \<le> of_int 604800000" by (simp only: of_int_le_iff)
    then show ?thesis by (simp add: CACHE_MAX_AGE_MS_def)
  qed
  from a have clip: "\<bar>(of_int t :: rat)\<bar> \<le> 8640000000000000"
  proof -
    from a have "\<bar>t\<bar> \<le> 8640000000000000" by simp
    then have "(of_int \<bar>t\<bar> :: rat) \<le> of_int 8640000000000000" by (simp only: of_int_le_iff)
    then show ?thesis by simp
  qed
  show "\<exists>w'. loadFromCache w = Returns (True, w') \<and>
            slice w' ''lastUpdated'' = JDate t \<and>
            (\<forall>k. k \<noteq> ''lastUpdated'' \<longrightarrow>
               slice w' k =
                 (if k \<in> {''summary'', ''trends'', ''topProblems'', ''inventory'',
                          ''realtimeInterfaces'', ''networkIOTrend''} \<and> truthy_opt (map_of kvs k)
                  then or_null (map_of kvs k) else slice w k))"
    using a age clip
    by (simp add: loadFromCache_def Let_def older_than_a_week_def nullish_def
        time_clip_def hydrate_all) (simp add: or_null_def)
next
  assume "localStorage w = None"
  then show "loadFromCache w = Returns (False, w)" by (simp add: loadFromCache_def)
next
  assume a: "localStorage w = Some (Json_text (JObj [(''timestamp'', JNum (of_int t)), (''data'', JObj kvs)])) \<and>
    clock w - t > 1000 * 60 * 60 * 24 * 7"
  then have "604800000 < clock w - t" by simp
  then have "(of_int 604800000 :: rat) < of_int (clock w - t)" by (simp only: of_int_less_iff)
  then have "of_int (clock w) - (of_int t :: rat) > CACHE_MAX_AGE_MS"
    by (simp add: CACHE_MAX_AGE_MS_def)
  with a show "loadFromCache w = Returns (False, w)"
    by (simp add: loadFromCache_def older_than_a_week_def)
next
  assume "localStorage w = Some Garbled_text \<or> localStorage w = Some Empty_text \<or>
    localStorage w = Some (Json_text JNull)"
  then show "\<exists>w'. loadFromCache w = Returns (False, w') \<and> dashboardState w' = dashboardState w"
    by (auto simp: loadFromCache_def)
next
  fix w' assume "loadFromCache w = Returns (False, w')"
  then show "dashboardState w' = dashboardState w" by (rule loadFromCache_false_keeps_state)
qed

theorem loadFromCache_hydrates_recent_snapshot_witness:
  "(\<exists>w'. loadFromCache (store_initial (Some sample_snapshot) False 1700007200000) = Returns (True, w') \<and>
         slice w' ''lastUpdated'' = JDate 1700000000000 \<and>
         slice w' ''summary'' = JObj [(''devices'', JObj [(''total'', JNum 10)])] \<and>
         slice w' ''trends'' = JNull) \<and>
   loadFromCache (store_initial (Some sample_snapshot) False 1700691200000) =
     Returns (False, store_initial (Some sample_snapshot) False 1700691200000) \<and>
   loadFromCache (store_initial None False 1700007200000) =
     Returns (False, store_initial None False 1700007200000) \<and>
   (\<exists>w'. loadFromCache (store_initial (Some Garbled_text) False 1700007200000) = Returns (False, w') \<and>
         dashboardState w' = initial_dashboardState)"
proof -
  let ?kvs = "[(''summary'', JObj [(''devices'', JObj [(''total'', JNum 10)])]),
            (''trends'', JNull), (''topProblems'', JNull), (''inventory'', JNull),
            (''realtimeInterfaces'', JNull), (''networkIOTrend'', JNull)]"
  let ?recent = "store_initial (Some sample_snapshot) False 1700007200000"
  let ?old = "store_initial (Some sample_snapshot) False 1700691200000"
  let ?none = "store_initial None False 1700007200000"
  let ?bad = "store_initial (Some Garbled_text) False 1700007200000"
  have h1: "localStorage ?recent =
      Some (Json_text (JObj [(''timestamp'', JNum (of_int 1700000000000)), (''data'', JObj ?kvs)])) \<and>
    \<bar>1700000000000 :: int\<bar> \<le> 8640000000000000 \<and>
    clock ?recent - 1700000000000 \<le> 1000 * 60 * 60 * 24 * 7"
    by (simp add: sample_snapshot_def)
  from conjunct1[OF loadFromCache_hydrates_recent_snapshot[of ?recent 1700000000000 ?kvs], THEN mp, OF h1]
  obtain w' where r: "loadFromCache ?recent = Returns (True, w')"
    and l: "slice w' ''lastUpdated'' = JDate 1700000000000"
    and k: "\<forall>k. k \<noteq> ''lastUpdated'' \<longrightarrow>
               slice w' k =
                 (if k \<in> {''summary'', ''trends'', ''topProblems'', ''inventory'',
                          ''realtimeInterfaces'', ''networkIOTrend''} \<and> truthy_opt (map_of ?kvs k)
                  then or_null (map_of ?kvs k) else slice ?recent k)"
    by blast
  have s: "slice w' ''summary'' = JObj [(''devices'', JObj [(''total'', JNum 10)])]"
    using k[THEN spec, of "''summary''"] by (simp add: truthy_opt_def or_null_def)
  have t: "slice w' ''trends'' = JNull"
    using k[THEN spec, of "''trends''"] by (simp add: truthy_opt_def slice_store_initial)
  have h2: "localStorage ?old =
      Some (Json_text (JObj [(''timestamp'', JNum (of_int 1700000000000)), (''data'', JObj ?kvs)])) \<and>
    clock ?old - 1700000000000 > 1000 * 60 * 60 * 24 * 7"
    by (simp add: sample_snapshot_def)
  have o: "loadFromCache ?old = Returns (False, ?old)"
    using loadFromCache_hydrates_recent_snapshot[of ?old 1700000000000 ?kvs] h2 by blast
  have n: "loadFromCache ?none = Returns (False, ?none)"
    using loadFromCache_hydrates_recent_snapshot[of ?none 0 "[]"] by simp
  have b: "\<exists>w'. loadFromCache ?bad = Returns (False, w') \<and> dashboardState w' = initial_dashboardState"
    using loadFromCache_hydrates_recent_snapshot[of ?bad 0 "[]"] by simp
  from r l s t o n b show ?thesis by blast
qed

section \<open>Properties of the fallback coordinator\<close>

lemma poll_inv_start: "poll_inv d \<Longrightarrow> poll_inv (startPollingFallback d)"
  by (auto simp: poll_inv_def startPollingFallback_def handle_truthy_def split: option.splits)

lemma poll_inv_stop: "poll_inv d \<Longrightarrow> poll_inv (stopPollingFallback d)"
  by (auto simp: poll_inv_def stopPollingFallback_def handle_truthy_def split: option.splits)

lemma poll_inv_store:
  assumes "poll_inv d"
    and "set (map fst (dashboardState (state_store d))) \<subseteq> set (map fst (dashboardState w'))"
    and "slice w' ''lastUpdated'' = JDate t"
  shows "poll_inv (d\<lparr>state_store := w'\<rparr>)"
  using assms unfolding poll_inv_def by (auto split: option.splits)

lemma with_store_updateState:
  assumes "poll_inv d" "key \<in> {''connectionStatus'', ''isLoading''}"
  shows "\<exists>d1. with_store (updateState key data) d = Returns d1 \<and> poll_inv d1 \<and>
           pollingInterval d1 = pollingInterval d \<and> active_intervals d1 = active_intervals d \<and>
           (key = ''connectionStatus'' \<longrightarrow> slice (state_store d1) ''connectionStatus'' = data)"
proof -
  from assms have own: "key \<in> set (map fst (dashboardState (state_store d)))"
    by (auto simp: poll_inv_def)
  let ?w = "state_store d"
  let ?w2 = "notifyListeners (set_slice ''lastUpdated'' (JDate (clock ?w)) (set_slice key data ?w))"
  let ?w' = "if setItem_throws ?w2 then console_add Console_warn ''Cache save failed'' ?w2
             else ?w2\<lparr>localStorage := Some (Json_text (json_roundtrip (cacheData ?w2)))\<rparr>"
  have u: "updateState key data ?w = Returns ?w'"
    by (simp only: updateState_own_key[OF own] saveToCache_returns)
  have d: "dashboardState ?w' =
      obj_set ''lastUpdated'' (JDate (clock ?w)) (obj_set key data (dashboardState ?w))"
    by (simp add: set_slice_def)
  have keys: "set (map fst (dashboardState ?w)) \<subseteq> set (map fst (dashboardState ?w'))"
    unfolding d by (auto simp: keys_obj_set)
  have sl: "slice ?w' k =
      slice (set_slice ''lastUpdated'' (JDate (clock ?w)) (set_slice key data ?w)) k" for k
    by (rule slice_cong) simp
  have lu: "slice ?w' ''lastUpdated'' = JDate (clock ?w)"
    unfolding sl by simp
  have cs: "key = ''connectionStatus'' \<longrightarrow> slice ?w' ''connectionStatus'' = data"
    unfolding sl by simp
  let ?d1 = "d\<lparr>state_store := ?w'\<rparr>"
  have r: "with_store (updateState key data) d = Returns ?d1"
    by (simp only: with_store_def u then_do_def outcome.case)
  have "poll_inv ?d1"
    by (rule poll_inv_store[OF assms(1) keys lu])
  with r cs show ?thesis by (intro exI[of _ ?d1]) simp
qed


lemma poll_inv_onConnectionChange:
  assumes "poll_inv d"
  shows "\<exists>d'. dashboard_onConnectionChange status d = Returns d' \<and> poll_inv d' \<and>
           (status = CONNECTED \<longrightarrow> pollingInterval d' = None \<and> active_intervals d' = []) \<and>
           (status = DISCONNECTED \<longrightarrow>
              (\<exists>h. pollingInterval d' = Some h \<and> active_intervals d' = [(h, POLLING_INTERVAL_MS)])) \<and>
           (status = CONNECTING \<longrightarrow>
              pollingInterval d' = pollingInterval d \<and> active_intervals d' = active_intervals d)"
proof -
  from with_store_updateState[OF assms, of "''connectionStatus''" "JStr (status_string status)"]
  obtain d1 where d1: "with_store (updateState ''connectionStatus'' (JStr (status_string status))) d
      = Returns d1" "poll_inv d1" "pollingInterval d1 = pollingInterval d"
      "active_intervals d1 = active_intervals d"
    by auto
  show ?thesis
  proof (cases status)
    case CONNECTED
    have "poll_inv (stopPollingFallback d1)" using d1(2) by (rule poll_inv_stop)
    moreover have "pollingInterval (stopPollingFallback d1) = None \<and>
        active_intervals (stopPollingFallback d1) = []"
      using d1(2)
      by (auto simp: poll_inv_def stopPollingFallback_def handle_truthy_def split: option.splits)
    ultimately show ?thesis
      using d1(1) by (simp add: dashboard_onConnectionChange_def then_do_def CONNECTED)
  next
    case CONNECTING
    with d1 show ?thesis
      by (simp add: dashboard_onConnectionChange_def then_do_def)
  next
    case DISCONNECTED
    have "poll_inv (startPollingFallback d1)" using d1(2) by (rule poll_inv_start)
    moreover have "\<exists>h. pollingInterval (startPollingFallback d1) = Some h \<and>
        active_intervals (startPollingFallback d1) = [(h, POLLING_INTERVAL_MS)]"
      using d1(2)
      by (auto simp: poll_inv_def startPollingFallback_def handle_truthy_def split: option.splits)
    ultimately show ?thesis
      using d1(1) by (simp add: dashboard_onConnectionChange_def then_do_def DISCONNECTED)
  qed
qed

lemma poll_inv_refreshAll:
  assumes "poll_inv d"
  shows "\<exists>d'. refreshAll d = Returns d' \<and> poll_inv d'"
proof -
  have "poll_inv (d\<lparr>refreshAll_calls := Suc (refreshAll_calls d)\<rparr>)"
    using assms by (simp add: poll_inv_def split: option.splits)
  from with_store_updateState[OF this, of "''isLoading''" "JBool True"]
  show ?thesis by (auto simp: refreshAll_def)
qed

lemma poll_inv_tab_visible:
  assumes "poll_inv d"
  shows "\<exists>d'. on_tab_visible d = Returns d' \<and> poll_inv d'"
proof -
  let ?lu = "or_null (map_of (getState (state_store d)) ''lastUpdated'')"
  from assms have "?lu = JNull \<or> (\<exists>t. ?lu = JDate t)"
    by (simp add: poll_inv_def slice_def getState_def)
  then obtain n where n: "lastUpdate_time ?lu = Some (Finite n)"
    by (auto simp: lastUpdate_time_def)
  obtain d1 where d1: "(if of_int (clock (state_store d)) - n > 30000 then refreshAll d else Returns d)
      = Returns d1" "poll_inv d1"
    using poll_inv_refreshAll[OF assms] assms by (cases "of_int (clock (state_store d)) - n > 30000") auto
  have "poll_inv (if or_null (map_of (getState (state_store d)) ''connectionStatus'') = JStr ''disconnected''
                  then startPollingFallback d1 else d1)"
    using d1(2) by (simp add: poll_inv_start)
  then show ?thesis
    by (simp add: on_tab_visible_def Let_def n d1(1) then_do_def)
qed

lemma poll_inv_step:
  assumes "poll_inv d"
  shows "\<exists>d'. dashboard_step op d = Returns d' \<and> poll_inv d'"
proof (cases op)
  case (Status_changed status)
  with poll_inv_onConnectionChange[OF assms, of status] show ?thesis
    by (auto simp: dashboard_step_def)
next
  case Tab_visible
  with poll_inv_tab_visible[OF assms] show ?thesis by (simp add: dashboard_step_def)
next
  case Poll_tick
  with poll_inv_refreshAll[OF assms] assms show ?thesis by (auto simp: dashboard_step_def)
next
  case (Time_passes ms)
  with assms show ?thesis
    by (simp add: dashboard_step_def poll_inv_def slice_def split: option.splits)
qed

lemma poll_inv_run:
  "poll_inv d \<Longrightarrow> \<exists>d'. dashboard_run ops d = Returns d' \<and> poll_inv d'"
proof (induction ops arbitrary: d)
  case Nil
  then show ?case by simp
next
  case (Cons op ops)
  from poll_inv_step[OF Cons.prems, of op] obtain d1 where
    d1: "dashboard_step op d = Returns d1" "poll_inv d1" by blast
  from Cons.IH[OF d1(2)] show ?case by (simp add: d1(1) then_do_def)
qed

lemma poll_inv_initial: "poll_inv (dashboard_initial (store_initial persisted full now))"
  by (simp add: poll_inv_def dashboard_initial_def slice_store_initial initial_dashboardState_def)

text \<open>
  C7. Every sequence of connection-status notifications, interleaved in any way with the
  tab becoming visible, ticks of the polling loop and time passing, returns, and after
  it at most one polling loop is active: the one whose handle \<open>pollingInterval\<close> holds,
  with the period of 30000 ms, or none when \<open>pollingInterval\<close> is \<open>null\<close>. At that point a
  notification of \<open>CONNECTED\<close> leaves no loop active, and a notification of
  \<open>DISCONNECTED\<close> leaves exactly one, with the period of 30000 ms; starting while a loop
  is active changes nothing, and so does stopping while none is.
\<close>

theorem polling_loop_unique:
  "(\<exists>d. dashboard_run ops (dashboard_initial (store_initial persisted full now)) = Returns d \<and>
        length (active_intervals d) \<le> 1 \<and>
        active_intervals d =
          (case pollingInterval d of None \<Rightarrow> [] | Some h \<Rightarrow> [(h, POLLING_INTERVAL_MS)]) \<and>
        (\<exists>d'. dashboard_onConnectionChange CONNECTED d = Returns d' \<and>
              pollingInterval d' = None \<and> active_intervals d' = []) \<and>
        (\<exists>d' h. dashboard_onConnectionChange DISCONNECTED d = Returns d' \<and>
              pollingInterval d' = Some h \<and> active_intervals d' = [(h, POLLING_INTERVAL_MS)]) \<and>
        (active_intervals d \<noteq> [] \<longrightarrow> startPollingFallback d = d) \<and>
        (active_intervals d = [] \<longrightarrow> stopPollingFallback d = d)) \<and>
   POLLING_INTERVAL_MS = 30000"
proof -
  from poll_inv_run[OF poll_inv_initial, of ops persisted full now] obtain d where
    d: "dashboard_run ops (dashboard_initial (store_initial persisted full now)) = Returns d"
    and inv: "poll_inv d" by blast
  have shape: "active_intervals d =
      (case pollingInterval d of None \<Rightarrow> [] | Some h \<Rightarrow> [(h, POLLING_INTERVAL_MS)])"
    using inv by (auto simp: poll_inv_def split: option.splits)
  then have len: "length (active_intervals d) \<le> 1" by (simp split: option.splits)
  from poll_inv_onConnectionChange[OF inv, of CONNECTED] have c:
    "\<exists>d'. dashboard_onConnectionChange CONNECTED d = Returns d' \<and>
              pollingInterval d' = None \<and> active_intervals d' = []" by auto
  from poll_inv_onConnectionChange[OF inv, of DISCONNECTED] have dc:
    "\<exists>d' h. dashboard_onConnectionChange DISCONNECTED d = Returns d' \<and>
              pollingInterval d' = Some h \<and> active_intervals d' = [(h, POLLING_INTERVAL_MS)]" by auto
  have st: "active_intervals d \<noteq> [] \<longrightarrow> startPollingFallback d = d"
    using inv by (auto simp: poll_inv_def startPollingFallback_def handle_truthy_def split: option.splits)
  have sp: "active_intervals d = [] \<longrightarrow> stopPollingFallback d = d"
    using inv by (auto simp: poll_inv_def stopPollingFallback_def handle_truthy_def split: option.splits)
  from d len shape c dc st sp show ?thesis
    by (simp add: POLLING_INTERVAL_MS_def)
qed


theorem polling_loop_unique_witness:
  "(\<exists>d. dashboard_run [] (dashboard_initial (store_initial None False 0)) = Returns d \<and>
        active_intervals d = [] \<and> stopPollingFallback d = d) \<and>
   (\<exists>d h. dashboard_run [Status_changed DISCONNECTED]
             (dashboard_initial (store_initial None False 0)) = Returns d \<and>
          active_intervals d = [(h, 30000)] \<and> startPollingFallback d = d)"
proof
  let ?d0 = "dashboard_initial (store_initial None False 0)"
  have a: "active_intervals ?d0 = []" by (simp add: dashboard_initial_def)
  from polling_loop_unique[of "[]" None False 0] a
  show "\<exists>d. dashboard_run [] ?d0 = Returns d \<and> active_intervals d = [] \<and>
    stopPollingFallback d = d"
    by simp
  have r: "dashboard_run [Status_changed DISCONNECTED] ?d0 =
      dashboard_onConnectionChange DISCONNECTED ?d0"
    by (cases "dashboard_onConnectionChange DISCONNECTED ?d0")
       (simp_all add: dashboard_step_def then_do_def)
  from polling_loop_unique[of "[]" None False 0] obtain d' h where
    d': "dashboard_onConnectionChange DISCONNECTED ?d0 = Returns d'"
      "active_intervals d' = [(h, POLLING_INTERVAL_MS)]"
    by auto
  from polling_loop_unique[of "[Status_changed DISCONNECTED]" None False 0] obtain d1 where
    d1: "dashboard_run [Status_changed DISCONNECTED] ?d0 = Returns d1"
      "active_intervals d1 \<noteq> [] \<longrightarrow> startPollingFallback d1 = d1"
    by blast
  from d1(1) r d'(1) have "d1 = d'" by simp
  with d1 d' show "\<exists>d h. dashboard_run [Status_changed DISCONNECTED] ?d0 = Returns d \<and>
      active_intervals d = [(h, 30000)] \<and> startPollingFallback d = d"
    by (simp add: POLLING_INTERVAL_MS_def)
qed

end
